theory Spec2Isabelle
  imports Complex_Main
begin

section \<open>Road-network routing engine of src/api/app.py\<close>

text \<open>
  Shallow embedding of the class \<open>RoadGraph\<close> (graph construction with coordinate
  snapping, nearest-node lookup, Dijkstra search and path reconstruction) and of the
  part of \<open>plan_route\<close> that calls it.

  Python floats are idealised as \<^typ>\<open>real\<close>; \<open>float('inf')\<close> is a separate value.
  A coordinate is a Python tuple of floats, here a list of reals, because
  \<open>tuple(map(float, c.split()))\<close> builds a tuple of whatever arity the text has.
\<close>

subsection \<open>Values\<close>

datatype error = ValueError | IndexError | TypeError | OverflowError

type_synonym coord = "real list"

type_synonym road_id = string

text \<open>A float that may be \<open>float('inf')\<close>: tentative distances start there.\<close>

datatype fdist = Fin real | PInf

fun fless :: "fdist \<Rightarrow> fdist \<Rightarrow> bool" where
  "fless (Fin x) (Fin y) = (x < y)"
| "fless (Fin x) PInf = True"
| "fless PInf y = False"

fun fplus :: "fdist \<Rightarrow> fdist \<Rightarrow> fdist" where
  "fplus (Fin x) (Fin y) = Fin (x + y)"
| "fplus PInf y = PInf"
| "fplus (Fin x) PInf = PInf"

record edge =
  edge_id :: road_id
  edge_length :: real
  geometry :: "coord list"

text \<open>
  \<open>self.nodes\<close> is a dict from node to adjacency list; its iteration order (insertion
  order) decides which node a coordinate snaps to, so it is an association list with
  distinct keys, new keys appended. \<open>self.edges\<close> is a dict keyed by the ordered pair.
\<close>

record road_graph =
  nodes :: "(coord \<times> coord list) list"
  edges :: "coord \<times> coord \<rightharpoonup> edge"

text \<open>A row of \<open>SELECT id, ST_AsText(geom) AS wkt, length_m, is_oneway FROM roads\<close>.\<close>

record road =
  road_ident :: road_id
  wkt :: string
  length_m :: "real list option"
  is_oneway :: bool

definition node_keys :: "road_graph \<Rightarrow> coord list" where
  "node_keys g = map fst (nodes g)"

text \<open>\<open>self.nodes[k]\<close>; every read in the source is at a key that is present.\<close>

definition adjacent :: "road_graph \<Rightarrow> coord \<Rightarrow> coord list" where
  "adjacent g k = (case map_of (nodes g) k of Some vs \<Rightarrow> vs | None \<Rightarrow> [])"

subsection \<open>Distance\<close>

text \<open>
  \<open>calculate_distance(point1, point2)\<close> is
  \<open>great_circle((point1[1], point1[0]), (point2[1], point2[0])).meters\<close>.
  geopy's \<open>great_circle\<close> is not part of the repository: it is the parameter \<open>gc\<close>, a
  function of two (latitude, longitude) pairs. Indexing a tuple of fewer than two
  components raises IndexError.
\<close>

definition calculate_distance ::
  "(real \<times> real \<Rightarrow> real \<times> real \<Rightarrow> real) \<Rightarrow> coord \<Rightarrow> coord \<Rightarrow> error + real" where
  "calculate_distance gc point1 point2 =
     (if length point1 < 2 \<or> length point2 < 2 then Inl IndexError
      else Inr (gc (point1 ! 1, point1 ! 0) (point2 ! 1, point2 ! 0)))"

text \<open>
  geopy builds a \<open>Point\<close> from each argument of \<open>great_circle\<close>, and that raises
  ValueError for a latitude outside \<open>[-90, 90]\<close> (a longitude is wrapped into range). The
  nodes of the graph are read back from a geography column, whose latitudes are in
  range; a point of a request is not. So the check is written out where a point of a
  request is an argument of \<open>calculate_distance\<close>: in \<open>find_nearest_node\<close> and in the two
  user legs of \<open>dijkstra\<close>. The tuples are indexed before \<open>great_circle\<close> is called, so
  an IndexError comes first.
\<close>

definition latitude_ok :: "real \<Rightarrow> bool" where
  "latitude_ok lat = (- 90 \<le> lat \<and> lat \<le> 90)"

definition checked_distance ::
  "(real \<times> real \<Rightarrow> real \<times> real \<Rightarrow> real) \<Rightarrow> coord \<Rightarrow> coord \<Rightarrow> error + real" where
  "checked_distance gc point1 point2 =
     (if 2 \<le> length point1 \<and> 2 \<le> length point2
         \<and> (\<not> latitude_ok (point1 ! 1) \<or> \<not> latitude_ok (point2 ! 1))
      then Inl ValueError
      else calculate_distance gc point1 point2)"

subsection \<open>Parsing the WKT text\<close>

text \<open>\<open>s.replace(old, '')\<close> for a non-empty \<open>old\<close>: occurrences are removed left to right.\<close>

function str_remove :: "string \<Rightarrow> string \<Rightarrow> string" where
  "str_remove old [] = []"
| "str_remove old (c # cs) =
     (if old \<noteq> [] \<and> take (length old) (c # cs) = old
      then str_remove old (drop (length old) (c # cs))
      else c # str_remove old cs)"
  by pat_completeness auto
termination
  by (relation "measure (\<lambda>(old, s). length s)") (auto split: if_splits)

text \<open>\<open>s.split(sep)\<close> with a one-character separator: empty pieces are kept.\<close>

fun split_on :: "char \<Rightarrow> string \<Rightarrow> string list" where
  "split_on sep [] = [[]]"
| "split_on sep (c # cs) =
     (if c = sep then [] # split_on sep cs
      else (case split_on sep cs of
              [] \<Rightarrow> [[c]]
            | w # ws \<Rightarrow> (c # w) # ws))"

text \<open>\<open>s.split()\<close>: pieces between runs of ASCII whitespace, empty pieces dropped.\<close>

definition is_space :: "char \<Rightarrow> bool" where
  "is_space c = (c \<in> set [CHR '' '', CHR 0x09, CHR 0x0A, CHR 0x0B, CHR 0x0C, CHR 0x0D,
                            CHR 0x1C, CHR 0x1D, CHR 0x1E, CHR 0x1F])"

fun split_ws_acc :: "string \<Rightarrow> string \<Rightarrow> string list" where
  "split_ws_acc w [] = (if w = [] then [] else [w])"
| "split_ws_acc w (c # cs) =
     (if is_space c then (if w = [] then split_ws_acc [] cs else w # split_ws_acc [] cs)
      else split_ws_acc (w @ [c]) cs)"

definition split_ws :: "string \<Rightarrow> string list" where
  "split_ws s = split_ws_acc [] s"

text \<open>
  \<open>tuple(map(float, tokens))\<close>: Python's \<open>float\<close> on a string is the parameter
  \<open>pyfloat\<close>, \<open>None\<close> where it raises ValueError.
\<close>

fun float_tuple :: "(string \<Rightarrow> real option) \<Rightarrow> string list \<Rightarrow> error + coord" where
  "float_tuple pyfloat [] = Inr []"
| "float_tuple pyfloat (t # ts) =
     (case pyfloat t of
        None \<Rightarrow> Inl ValueError
      | Some x \<Rightarrow> (case float_tuple pyfloat ts of
                     Inl e \<Rightarrow> Inl e
                   | Inr xs \<Rightarrow> Inr (x # xs)))"

fun float_tuples :: "(string \<Rightarrow> real option) \<Rightarrow> string list \<Rightarrow> error + coord list" where
  "float_tuples pyfloat [] = Inr []"
| "float_tuples pyfloat (c # cs) =
     (case float_tuple pyfloat (split_ws c) of
        Inl e \<Rightarrow> Inl e
      | Inr p \<Rightarrow> (case float_tuples pyfloat cs of
                     Inl e \<Rightarrow> Inl e
                   | Inr ps \<Rightarrow> Inr (p # ps)))"

text \<open>
  \<open>coords_str = wkt.replace('LINESTRING(', '').replace(')', '')\<close> and
  \<open>coords_list = [tuple(map(float, c.split())) for c in coords_str.split(',')]\<close>.
\<close>

definition parse_coords_list :: "(string \<Rightarrow> real option) \<Rightarrow> string \<Rightarrow> error + coord list" where
  "parse_coords_list pyfloat w =
     float_tuples pyfloat
       (split_on (CHR '','') (str_remove '')'' (str_remove ''LINESTRING('' w)))"

subsection \<open>Graph construction: \<open>RoadGraph.build_graph\<close>\<close>

text \<open>
  The nested \<open>get_or_create_node(coord, node_map, threshold=1)\<close>: the first key of the
  dict, in iteration order, at distance below the threshold; the coordinate itself when
  there is none.
\<close>

fun get_or_create_node ::
  "(real \<times> real \<Rightarrow> real \<times> real \<Rightarrow> real) \<Rightarrow> coord \<Rightarrow> coord list \<Rightarrow> real \<Rightarrow> error + coord" where
  "get_or_create_node gc coord [] threshold = Inr coord"
| "get_or_create_node gc coord (existing # rest) threshold =
     (case calculate_distance gc coord existing of
        Inl e \<Rightarrow> Inl e
      | Inr d \<Rightarrow> if d < threshold then Inr existing
                 else get_or_create_node gc coord rest threshold)"

text \<open>The loop \<open>for coord in coords_list\<close>, on the dict and on \<open>snapped_coords\<close>.\<close>

fun snap_coords ::
  "(real \<times> real \<Rightarrow> real \<times> real \<Rightarrow> real) \<Rightarrow> coord list \<Rightarrow> (coord \<times> coord list) list \<Rightarrow> coord list
     \<Rightarrow> error + ((coord \<times> coord list) list \<times> coord list)" where
  "snap_coords gc [] ns snapped_coords = Inr (ns, snapped_coords)"
| "snap_coords gc (coord # cs) ns snapped_coords =
     (case get_or_create_node gc coord (map fst ns) 1 of
        Inl e \<Rightarrow> Inl e
      | Inr snapped \<Rightarrow>
          snap_coords gc cs
            (if snapped \<notin> set (map fst ns) then ns @ [(snapped, [])] else ns)
            (snapped_coords @ [snapped]))"

text \<open>\<open>self.nodes[k].append(v)\<close>; in the source \<open>k\<close> was registered by the loop before.\<close>

definition append_adj ::
  "(coord \<times> coord list) list \<Rightarrow> coord \<Rightarrow> coord \<Rightarrow> (coord \<times> coord list) list" where
  "append_adj ns k v = map (\<lambda>(k', vs). if k' = k then (k', vs @ [v]) else (k', vs)) ns"

text \<open>
  \<open>segment_lengths[i] if segment_lengths and i < len(segment_lengths)
   else calculate_distance(start_node, end_node)\<close>
\<close>

definition segment_length_at ::
  "(real \<times> real \<Rightarrow> real \<times> real \<Rightarrow> real) \<Rightarrow> real list option \<Rightarrow> nat \<Rightarrow> coord \<Rightarrow> coord \<Rightarrow> error + real" where
  "segment_length_at gc segment_lengths i start_node end_node =
     (case segment_lengths of
        None \<Rightarrow> calculate_distance gc start_node end_node
      | Some ls \<Rightarrow> if ls \<noteq> [] \<and> i < length ls then Inr (ls ! i)
                   else calculate_distance gc start_node end_node)"

definition put_edge :: "road_graph \<Rightarrow> road_id \<Rightarrow> real \<Rightarrow> coord \<Rightarrow> coord \<Rightarrow> road_graph" where
  "put_edge g rid segment_length a b =
     g\<lparr>nodes := append_adj (nodes g) a b,
       edges := (edges g)((a, b) \<mapsto>
                  \<lparr>edge_id = rid, edge_length = segment_length, geometry = [a, b]\<rparr>)\<rparr>"

text \<open>
  The loop \<open>for i in range(len(snapped_coords) - 1)\<close>: the list argument is
  \<open>snapped_coords[i:]\<close>.
\<close>

fun add_edges ::
  "(real \<times> real \<Rightarrow> real \<times> real \<Rightarrow> real) \<Rightarrow> road_id \<Rightarrow> real list option \<Rightarrow> bool \<Rightarrow> nat \<Rightarrow> coord list
     \<Rightarrow> road_graph \<Rightarrow> error + road_graph" where
  "add_edges gc rid segment_lengths oneway i (start_node # end_node # rest) g =
     (case segment_length_at gc segment_lengths i start_node end_node of
        Inl e \<Rightarrow> Inl e
      | Inr segment_length \<Rightarrow>
          add_edges gc rid segment_lengths oneway (Suc i) (end_node # rest)
            (if \<not> oneway
             then put_edge (put_edge g rid segment_length start_node end_node)
                    rid segment_length end_node start_node
             else put_edge g rid segment_length start_node end_node))"
| "add_edges gc rid segment_lengths oneway i snapped_coords g = Inr g"

text \<open>The body of \<open>for road in roads\<close>.\<close>

definition add_road ::
  "(real \<times> real \<Rightarrow> real \<times> real \<Rightarrow> real) \<Rightarrow> (string \<Rightarrow> real option) \<Rightarrow> road_graph \<Rightarrow> road
     \<Rightarrow> error + road_graph" where
  "add_road gc pyfloat g r =
     (case parse_coords_list pyfloat (wkt r) of
        Inl e \<Rightarrow> Inl e
      | Inr coords_list \<Rightarrow>
          (case snap_coords gc coords_list (nodes g) [] of
             Inl e \<Rightarrow> Inl e
           | Inr (ns, snapped_coords) \<Rightarrow>
               add_edges gc (road_ident r) (length_m r) (is_oneway r) 0 snapped_coords
                 (g\<lparr>nodes := ns\<rparr>)))"

fun build_roads ::
  "(real \<times> real \<Rightarrow> real \<times> real \<Rightarrow> real) \<Rightarrow> (string \<Rightarrow> real option) \<Rightarrow> road_graph \<Rightarrow> road list
     \<Rightarrow> error + road_graph" where
  "build_roads gc pyfloat g [] = Inr g"
| "build_roads gc pyfloat g (r # rs) =
     (case add_road gc pyfloat g r of
        Inl e \<Rightarrow> Inl e
      | Inr g' \<Rightarrow> build_roads gc pyfloat g' rs)"

text \<open>
  \<open>build_graph\<close> resets both dicts and processes the rows of the table; an exception
  of the loop body is caught nowhere in the method.
\<close>

definition build_graph ::
  "(real \<times> real \<Rightarrow> real \<times> real \<Rightarrow> real) \<Rightarrow> (string \<Rightarrow> real option) \<Rightarrow> road list \<Rightarrow> error + road_graph" where
  "build_graph gc pyfloat roads = build_roads gc pyfloat \<lparr>nodes = [], edges = Map.empty\<rparr> roads"

subsection \<open>Nearest node: \<open>RoadGraph.find_nearest_node\<close>\<close>

fun nearest_scan ::
  "(real \<times> real \<Rightarrow> real \<times> real \<Rightarrow> real) \<Rightarrow> coord \<Rightarrow> coord list \<Rightarrow> coord option \<times> fdist
     \<Rightarrow> error + (coord option \<times> fdist)" where
  "nearest_scan gc point [] (nearest_node, min_distance) = Inr (nearest_node, min_distance)"
| "nearest_scan gc point (node # rest) (nearest_node, min_distance) =
     (case checked_distance gc point node of
        Inl e \<Rightarrow> Inl e
      | Inr distance \<Rightarrow>
          if fless (Fin distance) min_distance
          then nearest_scan gc point rest (Some node, Fin distance)
          else nearest_scan gc point rest (nearest_node, min_distance))"

definition find_nearest_node ::
  "(real \<times> real \<Rightarrow> real \<times> real \<Rightarrow> real) \<Rightarrow> road_graph \<Rightarrow> coord \<Rightarrow> error + coord option" where
  "find_nearest_node gc g point =
     (case nearest_scan gc point (node_keys g) (None, PInf) of
        Inl e \<Rightarrow> Inl e
      | Inr (nearest_node, min_distance) \<Rightarrow>
          if fless (Fin 500) min_distance then Inr None else Inr nearest_node)"

subsection \<open>Shortest path: \<open>RoadGraph.dijkstra\<close>\<close>

text \<open>
  \<open>min(unvisited, key=lambda node: distances[node], default=None)\<close>: the first element,
  in iteration order, whose key is minimal.
\<close>

fun min_by :: "(coord \<Rightarrow> fdist) \<Rightarrow> coord list \<Rightarrow> coord option" where
  "min_by key [] = None"
| "min_by key (x # xs) =
     (case min_by key xs of
        None \<Rightarrow> Some x
      | Some y \<Rightarrow> if fless (key y) (key x) then Some y else Some x)"

text \<open>
  The loop \<open>for neighbor in self.nodes[current]\<close>. \<open>distances\<close> is read and written
  only at nodes of \<open>unvisited\<close> and at \<open>current\<close>, which are keys of the dict, so it is a
  total function; \<open>previous_nodes\<close> is read with \<open>.get\<close>, where a stored \<open>None\<close> and a
  missing key are the same, so it is a map.
\<close>

fun relax_neighbors ::
  "road_graph \<Rightarrow> coord \<Rightarrow> coord list \<Rightarrow> (coord \<Rightarrow> fdist) \<times> (coord \<rightharpoonup> coord) \<Rightarrow> coord list
     \<Rightarrow> (coord \<Rightarrow> fdist) \<times> (coord \<rightharpoonup> coord)" where
  "relax_neighbors g current unvisited (distances, previous_nodes) [] =
     (distances, previous_nodes)"
| "relax_neighbors g current unvisited (distances, previous_nodes) (neighbor # rest) =
     (if neighbor \<notin> set unvisited
      then relax_neighbors g current unvisited (distances, previous_nodes) rest
      else (case edges g (current, neighbor) of
              None \<Rightarrow> relax_neighbors g current unvisited (distances, previous_nodes) rest
            | Some e \<Rightarrow>
                if fless (fplus (distances current) (Fin (edge_length e))) (distances neighbor)
                then relax_neighbors g current unvisited
                       (distances(neighbor := fplus (distances current) (Fin (edge_length e))),
                        previous_nodes(neighbor \<mapsto> current)) rest
                else relax_neighbors g current unvisited (distances, previous_nodes) rest))"

text \<open>
  The loop \<open>while unvisited\<close>. \<open>unvisited\<close> is a Python set: a list without repetition
  in the set's iteration order, which removal does not change.
\<close>

function dijkstra_loop ::
  "road_graph \<Rightarrow> coord \<Rightarrow> (coord \<Rightarrow> fdist) \<times> (coord \<rightharpoonup> coord) \<times> coord list
     \<Rightarrow> (coord \<Rightarrow> fdist) \<times> (coord \<rightharpoonup> coord) \<times> coord list" where
  "dijkstra_loop g end_node (distances, previous_nodes, unvisited) =
     (case min_by distances unvisited of
        None \<Rightarrow> (distances, previous_nodes, unvisited)
      | Some current \<Rightarrow>
          if distances current = PInf then (distances, previous_nodes, unvisited)
          else if current = end_node
          then (distances, previous_nodes, removeAll current unvisited)
          else (case relax_neighbors g current (removeAll current unvisited)
                       (distances, previous_nodes) (adjacent g current) of
                  (distances', previous_nodes') \<Rightarrow>
                    dijkstra_loop g end_node
                      (distances', previous_nodes', removeAll current unvisited)))"
  by pat_completeness auto
termination
proof (relation "measure (\<lambda>(g, end_node, distances, previous_nodes, unvisited). length unvisited)",
       goal_cases)
  case 1
  show ?case by simp
next
  case (2 g end_node distances previous_nodes unvisited current x y)
  have mem: "min_by key xs = Some c \<Longrightarrow> c \<in> set xs" for key xs c
    by (induction xs arbitrary: c) (auto split: option.splits if_splits)
  have "current \<in> set unvisited"
    using 2(1) by (rule mem)
  then have "length (removeAll current unvisited) < length unvisited"
    by (rule length_removeAll_less)
  then show ?case by simp
qed

text \<open>
  \<open>current = end_node; while current: path.insert(0, current);
   current = previous_nodes.get(current)\<close>.
  The loop stops at \<open>None\<close> and at the empty tuple, the only falsy values a node can
  be; on a cyclic \<open>previous_nodes\<close> it does not stop, which is the value \<open>None\<close> here.
\<close>

partial_function (option) walk_back ::
  "(coord \<rightharpoonup> coord) \<Rightarrow> coord option \<Rightarrow> coord list \<Rightarrow> coord list option" where
  "walk_back previous_nodes current path =
     (case current of
        None \<Rightarrow> Some path
      | Some c \<Rightarrow> if c = [] then Some path
                  else walk_back previous_nodes (previous_nodes c) (c # path))"

record segment =
  seg_road_id :: string
  seg_length :: real
  seg_type :: "string option"
  seg_from :: "coord option"
  seg_to :: "coord option"

text \<open>The loop \<open>for i in range(len(path) - 1)\<close>; the list argument is \<open>path[i:]\<close>.\<close>

fun path_segments ::
  "(real \<times> real \<Rightarrow> real \<times> real \<Rightarrow> real) \<Rightarrow> road_graph \<Rightarrow> coord list \<Rightarrow> coord list \<times> segment list
     \<Rightarrow> error + (coord list \<times> segment list)" where
  "path_segments gc g (a # b # rest) (line_coords, road_segments) =
     (case edges g (a, b) of
        Some e \<Rightarrow>
          if length (geometry e) < 2 then Inl IndexError
          else path_segments gc g (b # rest)
                 (line_coords @ [geometry e ! 1],
                  road_segments @ [\<lparr>seg_road_id = edge_id e, seg_length = edge_length e,
                                     seg_type = None, seg_from = None, seg_to = None\<rparr>])
      | None \<Rightarrow>
          (case calculate_distance gc a b of
             Inl err \<Rightarrow> Inl err
           | Inr segment_distance \<Rightarrow>
               path_segments gc g (b # rest)
                 (line_coords @ [b],
                  road_segments @ [\<lparr>seg_road_id = ''unknown_road'', seg_length = segment_distance,
                                     seg_type = Some ''unknown_segment'', seg_from = Some a,
                                     seg_to = Some b\<rparr>])))"
| "path_segments gc g path (line_coords, road_segments) = Inr (line_coords, road_segments)"

type_synonym route = "coord list option \<times> fdist \<times> segment list"

text \<open>Lines 943 to 970: initialisation and search.\<close>

definition search ::
  "(coord list \<Rightarrow> coord list) \<Rightarrow> road_graph \<Rightarrow> coord \<Rightarrow> coord
     \<Rightarrow> (coord \<Rightarrow> fdist) \<times> (coord \<rightharpoonup> coord) \<times> coord list" where
  "search set_iter g start_node end_node =
     dijkstra_loop g end_node
       ((\<lambda>node. PInf)(start_node := Fin 0), Map.empty, set_iter (node_keys g))"

text \<open>Lines 975 to 1040: the node path, the coordinates, the segments, the total.\<close>

definition build_route ::
  "(real \<times> real \<Rightarrow> real \<times> real \<Rightarrow> real) \<Rightarrow> road_graph \<Rightarrow> coord \<Rightarrow> coord \<Rightarrow> coord \<Rightarrow> coord
     \<Rightarrow> (coord \<Rightarrow> fdist) \<Rightarrow> (coord \<rightharpoonup> coord) \<Rightarrow> (error + route) option" where
  "build_route gc g start end start_node end_node distances previous_nodes =
     (case walk_back previous_nodes (Some end_node) [] of
        None \<Rightarrow> None
      | Some path \<Rightarrow>
          (case checked_distance gc start start_node of
             Inl e \<Rightarrow> Some (Inl e)
           | Inr start_to_first_node_distance \<Rightarrow>
               (case path_segments gc g path
                       (if start \<noteq> start_node then [start, start_node] else [start],
                        if start \<noteq> start_node \<and> start_to_first_node_distance > 0
                        then [\<lparr>seg_road_id = ''user_to_road'',
                                seg_length = start_to_first_node_distance,
                                seg_type = Some ''user_segment'', seg_from = Some start,
                                seg_to = Some start_node\<rparr>]
                        else []) of
                  Inl e \<Rightarrow> Some (Inl e)
                | Inr (line_coords, road_segments) \<Rightarrow>
                    (case checked_distance gc end_node end of
                       Inl e \<Rightarrow> Some (Inl e)
                     | Inr end_node_to_end_distance \<Rightarrow>
                         Some (Inr
                           (Some (if line_coords = [] \<or> last line_coords \<noteq> end
                                  then line_coords @ [end] else line_coords),
                            fplus (fplus (Fin start_to_first_node_distance) (distances end_node))
                              (Fin end_node_to_end_distance),
                            if end \<noteq> end_node \<and> end_node_to_end_distance > 0
                            then road_segments @
                                   [\<lparr>seg_road_id = ''road_to_user'',
                                     seg_length = end_node_to_end_distance,
                                     seg_type = Some ''user_segment'', seg_from = Some end_node,
                                     seg_to = Some end\<rparr>]
                            else road_segments))))))"

text \<open>
  \<open>dijkstra(self, start, end)\<close>. \<open>set_iter\<close> gives the iteration order of the set built
  from the keys, which CPython fixes by hashing. The result is \<open>None\<close> only when the
  path loop does not return.
\<close>

definition dijkstra ::
  "(real \<times> real \<Rightarrow> real \<times> real \<Rightarrow> real) \<Rightarrow> (coord list \<Rightarrow> coord list) \<Rightarrow> road_graph \<Rightarrow> coord \<Rightarrow> coord
     \<Rightarrow> (error + route) option" where
  "dijkstra gc set_iter g start end =
     (case find_nearest_node gc g start of
        Inl e \<Rightarrow> Some (Inl e)
      | Inr start_node \<Rightarrow>
          (case find_nearest_node gc g end of
             Inl e \<Rightarrow> Some (Inl e)
           | Inr end_node \<Rightarrow>
               (case (start_node, end_node) of
                  (Some sn, Some en) \<Rightarrow>
                    (case search set_iter g sn en of
                       (distances, previous_nodes, unvisited) \<Rightarrow>
                         if previous_nodes en = None then Some (Inr (None, Fin 0, []))
                         else build_route gc g start end sn en distances previous_nodes)
                | _ \<Rightarrow> Some (Inr (None, Fin 0, [])))))"

subsection \<open>The route endpoint: \<open>plan_route\<close>\<close>

text \<open>
  A value of the request body other than \<open>null\<close>, as \<open>json.loads\<close> reads it: a number
  with a fraction or an exponent is a float (\<open>JNum\<close>, a finite one here), a number
  without is an integer of any size (\<open>JInt\<close>). \<open>float\<close> of a float is the float; of an
  integer it is the integer, unless that rounds beyond the largest float, from
  \<open>2 ^ 1024 - 2 ^ 970\<close> on in absolute value, which is an OverflowError; of a boolean it is
  0 or 1; of a string what \<open>pyfloat\<close> parses (ValueError otherwise); of a list or an
  object it is a TypeError. A float that is not finite (the literals \<open>NaN\<close> and
  \<open>Infinity\<close>, a float literal beyond the range, a string such as \<open>nan\<close>) is not a
  real number and has no counterpart here.
\<close>

datatype json_value = JNum real | JInt int | JBool bool | JStr string | JOther

record route_query =
  start_lon :: "json_value option"
  start_lat :: "json_value option"
  end_lon :: "json_value option"
  end_lat :: "json_value option"

fun to_float :: "(string \<Rightarrow> real option) \<Rightarrow> json_value \<Rightarrow> error + real" where
  "to_float pyfloat (JNum x) = Inr x"
| "to_float pyfloat (JInt n) =
     (if 2 ^ 1024 - 2 ^ 970 \<le> \<bar>n\<bar> then Inl OverflowError else Inr (of_int n))"
| "to_float pyfloat (JBool b) = Inr (if b then 1 else 0)"
| "to_float pyfloat (JStr s) = (case pyfloat s of None \<Rightarrow> Inl ValueError | Some x \<Rightarrow> Inr x)"
| "to_float pyfloat JOther = Inl TypeError"

text \<open>
  What the handler returns: a failure body with its HTTP status, message and
  suggestion, or the route handed on to the annotation code.
\<close>

datatype response =
  Failure nat string "string option"
| Route_found "coord list" fdist "segment list"

fun float_all :: "(string \<Rightarrow> real option) \<Rightarrow> json_value list \<Rightarrow> error + real list" where
  "float_all pyfloat [] = Inr []"
| "float_all pyfloat (v # vs) =
     (case to_float pyfloat v of
        Inl e \<Rightarrow> Inl e
      | Inr x \<Rightarrow> (case float_all pyfloat vs of Inl e \<Rightarrow> Inl e | Inr xs \<Rightarrow> Inr (x # xs)))"

text \<open>
  \<open>plan_route\<close> from the reading of the four fields to the check of the result of
  \<open>road_graph.dijkstra\<close>, for a request with a JSON object as body that passed the
  optional JWT check; a field is \<open>None\<close> when the key is missing or \<open>null\<close>. Only
  ValueError is caught around the conversions; any other exception leaves the handler.
\<close>

definition plan_route ::
  "(real \<times> real \<Rightarrow> real \<times> real \<Rightarrow> real) \<Rightarrow> (string \<Rightarrow> real option) \<Rightarrow> (coord list \<Rightarrow> coord list)
     \<Rightarrow> road_graph \<Rightarrow> route_query \<Rightarrow> (error + response) option" where
  "plan_route gc pyfloat set_iter g q =
     (case (start_lon q, start_lat q, end_lon q, end_lat q) of
        (Some slon, Some slat, Some elon, Some elat) \<Rightarrow>
          (case float_all pyfloat [slon, slat, elon, elat] of
             Inl ValueError \<Rightarrow> Some (Inr (Failure 400 ''Invalid coordinates'' None))
           | Inl e \<Rightarrow> Some (Inl e)
           | Inr fs \<Rightarrow>
               (case dijkstra gc set_iter g [fs ! 0, fs ! 1] [fs ! 2, fs ! 3] of
                  None \<Rightarrow> None
                | Some (Inl e) \<Rightarrow> Some (Inl e)
                | Some (Inr (path_coords, total_distance, road_segments)) \<Rightarrow>
                    (case path_coords of
                       None \<Rightarrow>
                         Some (Inr (Failure 404 ''No valid route found between the points''
                                      (Some ''Try closer points or check road network data'')))
                     | Some pc \<Rightarrow>
                         if pc = [] \<or> length pc < 2
                         then Some (Inr (Failure 404 ''No valid route found between the points''
                                           (Some ''Try closer points or check road network data'')))
                         else Some (Inr (Route_found pc total_distance road_segments)))))
      | _ \<Rightarrow> Some (Inr (Failure 400 ''Missing coordinates'' None)))"

subsection \<open>Concrete parameters for evaluating the model\<close>

text \<open>
  A distance to run the model on examples: 111195 metres per degree of latitude and of
  longitude. On two points of one meridian this is the great-circle distance on a sphere
  of radius 6371.009 km, up to the rounding of the constant.
\<close>

definition flat_gc :: "real \<times> real \<Rightarrow> real \<times> real \<Rightarrow> real" where
  "flat_gc p q = 111195 * (\<bar>fst p - fst q\<bar> + \<bar>snd p - snd q\<bar>)"

text \<open>
  A reader of plain decimal literals (sign, digits, optional point and digits) to run
  the parser on examples; on these strings it is Python's \<open>float\<close>, and it has no value,
  as \<open>float\<close> has none, on words such as \<open>LINESTRING\<close> or \<open>EMPTY\<close>.
\<close>

definition digit_of :: "char \<Rightarrow> nat option" where
  "digit_of c =
     (if (48::nat) \<le> of_char c \<and> of_char c \<le> (57::nat) then Some (of_char c - 48) else None)"

fun digits_value :: "nat \<Rightarrow> string \<Rightarrow> nat option" where
  "digits_value acc [] = Some acc"
| "digits_value acc (c # cs) =
     (case digit_of c of None \<Rightarrow> None | Some d \<Rightarrow> digits_value (10 * acc + d) cs)"

definition unsigned_decimal :: "string \<Rightarrow> real option" where
  "unsigned_decimal s =
     (let ip = takeWhile (\<lambda>c. c \<noteq> CHR ''.'') s; rest = dropWhile (\<lambda>c. c \<noteq> CHR ''.'') s
      in if ip = [] \<or> (rest \<noteq> [] \<and> tl rest = []) then None
         else (case (digits_value 0 ip, digits_value 0 (tl rest)) of
                 (Some a, Some b) \<Rightarrow> Some (real a + real b / 10 ^ length (tl rest))
               | _ \<Rightarrow> None))"

definition decimal_float :: "string \<Rightarrow> real option" where
  "decimal_float s =
     (case s of
        [] \<Rightarrow> None
      | c # cs \<Rightarrow> if c = CHR ''-'' then map_option uminus (unsigned_decimal cs)
                  else unsigned_decimal s)"

subsection \<open>Example rows\<close>

text \<open>
  A two-way road of two points on the meridian 0, about 111 m long, without stored
  lengths, and a row whose geometry is the text PostGIS prints for an empty line.
\<close>

definition meridian_road :: road where
  "meridian_road =
     \<lparr>road_ident = ''r1'', wkt = ''LINESTRING(0 0,0 0.001)'', length_m = None,
      is_oneway = False\<rparr>"

definition empty_road :: road where
  "empty_road =
     \<lparr>road_ident = ''r0'', wkt = ''LINESTRING EMPTY'', length_m = None, is_oneway = False\<rparr>"

subsection \<open>Predicates of the properties\<close>

text \<open>Both endpoints of every stored edge are keys of the node dict.\<close>

definition edges_closed :: "road_graph \<Rightarrow> bool" where
  "edges_closed g =
     (\<forall>a b e. edges g (a, b) = Some e \<longrightarrow> a \<in> set (node_keys g) \<and> b \<in> set (node_keys g))"

text \<open>Every entry of every adjacency list is a key of the node dict.\<close>

definition adjacency_closed :: "road_graph \<Rightarrow> bool" where
  "adjacency_closed g =
     (\<forall>k\<in>set (node_keys g). set (adjacent g k) \<subseteq> set (node_keys g))"

text \<open>The graph the example road builds.\<close>

definition meridian_graph :: road_graph where
  "meridian_graph =
     \<lparr>nodes = [([0, 0], [[0, 1 / 1000]]), ([0, 1 / 1000], [[0, 0]])],
      edges = [([0, 0], [0, 1 / 1000]) \<mapsto>
                 \<lparr>edge_id = ''r1'', edge_length = 111195 / 1000,
                  geometry = [[0, 0], [0, 1 / 1000]]\<rparr>,
               ([0, 1 / 1000], [0, 0]) \<mapsto>
                 \<lparr>edge_id = ''r1'', edge_length = 111195 / 1000,
                  geometry = [[0, 1 / 1000], [0, 0]]\<rparr>]\<rparr>"

text \<open>
  Where a stored edge comes from: a road \<open>r\<close> of the input, processed on the graph
  \<open>g0\<close> that the roads before it build, and a segment index \<open>i\<close> of the snapped
  coordinates of \<open>r\<close>, such that the key of the edge is the \<open>i\<close>-th pair of consecutive
  snapped coordinates (or its mirror, for a two-way road), its id is the id of \<open>r\<close>, and
  its length is the value, at this index and this pair, of the expression of the source
  for the segment length.
\<close>

definition segment_edge ::
  "(real \<times> real \<Rightarrow> real \<times> real \<Rightarrow> real) \<Rightarrow> (string \<Rightarrow> real option) \<Rightarrow> road list \<Rightarrow> coord \<Rightarrow> coord
     \<Rightarrow> edge \<Rightarrow> bool" where
  "segment_edge gc pyfloat roads a b e =
     (\<exists>pre r post g0 coords_list ns snapped_coords i.
        roads = pre @ r # post
        \<and> build_graph gc pyfloat pre = Inr g0
        \<and> parse_coords_list pyfloat (wkt r) = Inr coords_list
        \<and> snap_coords gc coords_list (nodes g0) [] = Inr (ns, snapped_coords)
        \<and> Suc i < length snapped_coords
        \<and> edge_id e = road_ident r
        \<and> ((a, b) = (snapped_coords ! i, snapped_coords ! Suc i)
           \<or> (b, a) = (snapped_coords ! i, snapped_coords ! Suc i) \<and> \<not> is_oneway r)
        \<and> segment_length_at gc (length_m r) i (snapped_coords ! i) (snapped_coords ! Suc i)
            = Inr (edge_length e))"

text \<open>
  A one-way road of two segments with a stored length for each, and the graph it
  builds.
\<close>

definition two_segment_road :: road where
  "two_segment_road =
     \<lparr>road_ident = ''r4'', wkt = ''LINESTRING(0 0,0 0.001,0 0.002)'',
      length_m = Some [120, 7], is_oneway = True\<rparr>"

definition two_segment_graph :: road_graph where
  "two_segment_graph =
     \<lparr>nodes = [([0, 0], [[0, 1 / 1000]]), ([0, 1 / 1000], [[0, 1 / 500]]), ([0, 1 / 500], [])],
      edges = [([0, 0], [0, 1 / 1000]) \<mapsto>
                 \<lparr>edge_id = ''r4'', edge_length = 120,
                  geometry = [[0, 0], [0, 1 / 1000]]\<rparr>,
               ([0, 1 / 1000], [0, 1 / 500]) \<mapsto>
                 \<lparr>edge_id = ''r4'', edge_length = 7,
                  geometry = [[0, 1 / 1000], [0, 1 / 500]]\<rparr>]\<rparr>"

text \<open>A one-way road whose stored length is negative, as a road update can store it.\<close>

definition negative_road :: road where
  "negative_road =
     \<lparr>road_ident = ''r2'', wkt = ''LINESTRING(0 0,0 0.001)'', length_m = Some [- 5],
      is_oneway = True\<rparr>"

text \<open>
  The assignments \<open>self.edges[(x, y)] = {...}\<close> that a build executes, in order, each
  with the \<open>append\<close> to the adjacency list of \<open>x\<close> that precedes it: road id, length,
  \<open>x\<close> and \<open>y\<close>. The three functions follow \<open>add_edges\<close>, \<open>add_road\<close> and
  \<open>build_roads\<close>.
\<close>

type_synonym edge_call = "road_id \<times> real \<times> coord \<times> coord"

fun edge_calls ::
  "(real \<times> real \<Rightarrow> real \<times> real \<Rightarrow> real) \<Rightarrow> road_id \<Rightarrow> real list option \<Rightarrow> bool \<Rightarrow> nat \<Rightarrow> coord list
     \<Rightarrow> edge_call list" where
  "edge_calls gc rid segment_lengths oneway i (start_node # end_node # rest) =
     (case segment_length_at gc segment_lengths i start_node end_node of
        Inl e \<Rightarrow> []
      | Inr segment_length \<Rightarrow>
          (rid, segment_length, start_node, end_node)
            # (if \<not> oneway then [(rid, segment_length, end_node, start_node)] else [])
            @ edge_calls gc rid segment_lengths oneway (Suc i) (end_node # rest))"
| "edge_calls gc rid segment_lengths oneway i snapped_coords = []"

definition road_calls ::
  "(real \<times> real \<Rightarrow> real \<times> real \<Rightarrow> real) \<Rightarrow> (string \<Rightarrow> real option) \<Rightarrow> road_graph \<Rightarrow> road
     \<Rightarrow> edge_call list" where
  "road_calls gc pyfloat g r =
     (case parse_coords_list pyfloat (wkt r) of
        Inl e \<Rightarrow> []
      | Inr coords_list \<Rightarrow>
          (case snap_coords gc coords_list (nodes g) [] of
             Inl e \<Rightarrow> []
           | Inr (ns, snapped_coords) \<Rightarrow>
               edge_calls gc (road_ident r) (length_m r) (is_oneway r) 0 snapped_coords))"

fun build_calls ::
  "(real \<times> real \<Rightarrow> real \<times> real \<Rightarrow> real) \<Rightarrow> (string \<Rightarrow> real option) \<Rightarrow> road_graph \<Rightarrow> road list
     \<Rightarrow> edge_call list" where
  "build_calls gc pyfloat g [] = []"
| "build_calls gc pyfloat g (r # rs) =
     road_calls gc pyfloat g r
       @ (case add_road gc pyfloat g r of
            Inl e \<Rightarrow> []
          | Inr g' \<Rightarrow> build_calls gc pyfloat g' rs)"

text \<open>The calls for one ordered pair, and the edge the last of them writes.\<close>

definition calls_for :: "edge_call list \<Rightarrow> coord \<times> coord \<Rightarrow> edge_call list" where
  "calls_for calls k = filter (\<lambda>(rid, l, a, b). (a, b) = k) calls"

definition last_written :: "edge_call list \<Rightarrow> coord \<times> coord \<Rightarrow> edge option" where
  "last_written calls k =
     (case calls_for calls k of
        [] \<Rightarrow> None
      | c # cs \<Rightarrow>
          (case last (c # cs) of
             (rid, l, a, b) \<Rightarrow> Some \<lparr>edge_id = rid, edge_length = l, geometry = [a, b]\<rparr>))"

text \<open>The entries the calls append to the adjacency list of one node.\<close>

definition appended_to :: "edge_call list \<Rightarrow> coord \<Rightarrow> coord list" where
  "appended_to calls x = map (\<lambda>(rid, l, a, b). b) (filter (\<lambda>(rid, l, a, b). a = x) calls)"

text \<open>What a sequence of calls does to the edge dict and to the adjacency lists.\<close>

definition effect :: "road_graph \<Rightarrow> edge_call list \<Rightarrow> road_graph \<Rightarrow> bool" where
  "effect g calls g' =
     ((\<forall>k. edges g' k = (case last_written calls k of None \<Rightarrow> edges g k | Some e \<Rightarrow> Some e))
      \<and> (\<forall>x. adjacent g' x = adjacent g x @ appended_to calls x))"

text \<open>
  A one-way road over the geometry of the example road, with a stored length, and the
  graph the two roads build.
\<close>

definition overlay_road :: road where
  "overlay_road =
     \<lparr>road_ident = ''r3'', wkt = ''LINESTRING(0 0,0 0.001)'', length_m = Some [120],
      is_oneway = True\<rparr>"

definition overlay_graph :: road_graph where
  "overlay_graph =
     \<lparr>nodes = [([0, 0], [[0, 1 / 1000], [0, 1 / 1000]]), ([0, 1 / 1000], [[0, 0]])],
      edges = [([0, 1 / 1000], [0, 0]) \<mapsto>
                 \<lparr>edge_id = ''r1'', edge_length = 111195 / 1000,
                  geometry = [[0, 1 / 1000], [0, 0]]\<rparr>,
               ([0, 0], [0, 1 / 1000]) \<mapsto>
                 \<lparr>edge_id = ''r3'', edge_length = 120,
                  geometry = [[0, 0], [0, 1 / 1000]]\<rparr>]\<rparr>"

text \<open>
  The lengths of the graph edges joining the consecutive nodes of a node path; there is
  none when some consecutive pair has no edge.
\<close>

fun path_lengths :: "road_graph \<Rightarrow> coord list \<Rightarrow> real list option" where
  "path_lengths g (a # b # rest) =
     (case edges g (a, b) of
        None \<Rightarrow> None
      | Some e \<Rightarrow> map_option (\<lambda>ls. edge_length e # ls) (path_lengths g (b # rest)))"
| "path_lengths g path = Some []"

text \<open>
  The invariant of the search loop, over the list \<open>vis\<close> of the nodes removed from
  \<open>unvisited\<close> so far, in the order of their removal: a recorded predecessor \<open>c\<close> of
  \<open>n\<close> was removed before \<open>n\<close>, has a finite distance, and is joined to \<open>n\<close> by an edge
  whose length is the difference of the two distances; the start node has distance 0
  and no predecessor; every other node of finite distance has a predecessor.
\<close>

definition search_inv ::
  "road_graph \<Rightarrow> coord \<Rightarrow> coord list \<Rightarrow> (coord \<Rightarrow> fdist) \<times> (coord \<rightharpoonup> coord) \<times> coord list \<Rightarrow> bool" where
  "search_inv g sn vis s =
     (case s of (d, p, unv) \<Rightarrow>
        set vis \<inter> set unv = {} \<and> [] \<notin> set vis \<and> [] \<notin> set unv
        \<and> (\<forall>n c. p n = Some c \<longrightarrow>
              (\<exists>xs ys. vis = xs @ c # ys \<and> n \<notin> set xs \<and> n \<noteq> c)
              \<and> (\<exists>e l. edges g (c, n) = Some e \<and> d c = Fin l \<and> d n = Fin (l + edge_length e)))
        \<and> p sn = None \<and> d sn = Fin 0
        \<and> (\<forall>n. d n \<noteq> PInf \<longrightarrow> n = sn \<or> p n \<noteq> None)
        \<and> (sn \<in> set unv \<longrightarrow> p = Map.empty))"


definition same_node_query :: route_query where
  "same_node_query =
     \<lparr>start_lon = Some (JNum 0), start_lat = Some (JNum (1 / 100000)),
      end_lon = Some (JNum 0), end_lat = Some (JNum (2 / 100000))\<rparr>"





section \<open>Properties\<close>

subsection \<open>Snapping\<close>

lemma calculate_distance_Inr:
  "2 \<le> length p \<Longrightarrow> 2 \<le> length q \<Longrightarrow>
   calculate_distance gc p q = Inr (gc (p ! 1, p ! 0) (q ! 1, q ! 0))"
  by (simp add: calculate_distance_def)

lemma get_or_create_node_total:
  assumes "2 \<le> length coord" and "\<forall>e\<in>set ks. 2 \<le> length e"
  shows "\<exists>r. get_or_create_node gc coord ks t = Inr r"
  using assms by (induction ks) (auto simp: calculate_distance_Inr)

lemma get_or_create_node_split:
  assumes "get_or_create_node gc coord ks t = Inr r"
  shows "(\<exists>pre post d. ks = pre @ r # post \<and> calculate_distance gc coord r = Inr d \<and> d < t
            \<and> (\<forall>e\<in>set pre. \<exists>d'. calculate_distance gc coord e = Inr d' \<and> t \<le> d'))
         \<or> (r = coord \<and> (\<forall>e\<in>set ks. \<exists>d'. calculate_distance gc coord e = Inr d' \<and> t \<le> d'))"
  using assms
proof (induction ks)
  case Nil
  then show ?case by simp
next
  case (Cons k ks)
  from Cons.prems obtain d where d: "calculate_distance gc coord k = Inr d"
    by (auto split: sum.splits)
  show ?case
  proof (cases "d < t")
    case True
    with Cons.prems d have "r = k" by simp
    then have "k # ks = [] @ r # ks" by simp
    with True d \<open>r = k\<close> show ?thesis by fastforce
  next
    case False
    with Cons.prems d have rest: "get_or_create_node gc coord ks t = Inr r" by simp
    from Cons.IH [OF rest] show ?thesis
    proof
      assume "\<exists>pre post d. ks = pre @ r # post \<and> calculate_distance gc coord r = Inr d \<and> d < t
            \<and> (\<forall>e\<in>set pre. \<exists>d'. calculate_distance gc coord e = Inr d' \<and> t \<le> d')"
      then obtain pre post d0 where h: "ks = pre @ r # post" "calculate_distance gc coord r = Inr d0"
        "d0 < t" "\<forall>e\<in>set pre. \<exists>d'. calculate_distance gc coord e = Inr d' \<and> t \<le> d'"
        by blast
      have "k # ks = (k # pre) @ r # post" using h(1) by simp
      moreover have "\<forall>e\<in>set (k # pre). \<exists>d'. calculate_distance gc coord e = Inr d' \<and> t \<le> d'"
        using h(4) d False by simp
      ultimately show ?thesis using h(2,3) by blast
    next
      assume "r = coord \<and> (\<forall>e\<in>set ks. \<exists>d'. calculate_distance gc coord e = Inr d' \<and> t \<le> d')"
      then show ?thesis using d False by simp
    qed
  qed
qed

text \<open>
  Claim C3, as the code has it. A raw coordinate and the registered nodes being tuples
  of at least two floats, the lookup returns a value \<open>r\<close>; the coordinate is snapped to
  \<open>r\<close> and \<open>r\<close> is registered when it is not yet a key. \<open>r\<close> is the first registered
  node, in registration order, whose distance from the coordinate is below 1 (every
  node registered before it is at distance 1 or more), whether or not a later node is
  nearer; it is the raw coordinate itself when every registered node is at distance 1
  or more.
\<close>

theorem snap_first_below_threshold:
  assumes "2 \<le> length coord" and "\<forall>e\<in>set (map fst ns). 2 \<le> length e"
  shows "\<exists>r. get_or_create_node gc coord (map fst ns) 1 = Inr r
           \<and> snap_coords gc [coord] ns acc =
               Inr (if r \<notin> set (map fst ns) then ns @ [(r, [])] else ns, acc @ [r])
           \<and> ((\<exists>pre post d. map fst ns = pre @ r # post
                  \<and> calculate_distance gc coord r = Inr d \<and> d < 1
                  \<and> (\<forall>e\<in>set pre. \<exists>d'. calculate_distance gc coord e = Inr d' \<and> 1 \<le> d'))
               \<or> (r = coord
                  \<and> (\<forall>e\<in>set (map fst ns). \<exists>d'. calculate_distance gc coord e = Inr d' \<and> 1 \<le> d')))"
proof -
  from get_or_create_node_total [OF assms] obtain r
    where r: "get_or_create_node gc coord (map fst ns) 1 = Inr r" by blast
  have "snap_coords gc [coord] ns acc =
          Inr (if r \<notin> set (map fst ns) then ns @ [(r, [])] else ns, acc @ [r])"
    using r by simp
  with r get_or_create_node_split [OF r] show ?thesis by blast
qed

theorem snap_first_below_threshold_witness:
  "2 \<le> length [0, 8 / 1000000 :: real]
   \<and> list_all (\<lambda>e. 2 \<le> length e) (map fst [([0, 0], []), ([0, 1 / 100000 :: real], [])])
   \<and> snap_coords flat_gc [[0, 8 / 1000000]] [([0, 0], []), ([0, 1 / 100000], [])] []
       = Inr ([([0, 0], []), ([0, 1 / 100000], [])], [[0, 0]])"
  using snap_first_below_threshold [of "[0, 8 / 1000000]" "[([0, 0], []), ([0, 1 / 100000], [])]" flat_gc "[]"]
  by (simp add: calculate_distance_def flat_gc_def)

text \<open>
  The lookup does not return the nearest node: with nodes at latitudes 0 and 0.00001 on
  the meridian 0, about 1.11 m apart, the coordinate at latitude 0.000008 is 0.89 m from
  the first and 0.22 m from the second, and is snapped to the first.
\<close>

theorem snap_nearest_counterexample:
  "snap_coords flat_gc [[0, 0], [0, 1 / 100000], [0, 8 / 1000000]] [] []
     = Inr ([([0, 0], []), ([0, 1 / 100000], [])], [[0, 0], [0, 1 / 100000], [0, 0]])
   \<and> get_or_create_node flat_gc [0, 8 / 1000000] [[0, 0], [0, 1 / 100000]] 1 = Inr [0, 0]
   \<and> calculate_distance flat_gc [0, 8 / 1000000] [0, 0] = Inr (88956 / 100000)
   \<and> calculate_distance flat_gc [0, 8 / 1000000] [0, 1 / 100000] = Inr (22239 / 100000)"
  by (simp add: calculate_distance_def flat_gc_def)

lemma get_or_create_node_cases:
  assumes "get_or_create_node gc coord ks t = Inr r"
  shows "(r \<in> set ks \<and> (\<exists>d. calculate_distance gc coord r = Inr d \<and> d < t))
         \<or> (r = coord \<and> (\<forall>e\<in>set ks. \<exists>d'. calculate_distance gc coord e = Inr d' \<and> t \<le> d'))"
  using get_or_create_node_split [OF assms] by auto

lemma snap_coords_props:
  assumes "snap_coords gc cs ns acc = Inr (ns', acc')"
  shows "\<exists>new ss. ns' = ns @ map (\<lambda>k. (k, [])) new \<and> set new \<subseteq> set cs
           \<and> acc' = acc @ ss
           \<and> list_all2 (\<lambda>c s. s \<in> set (map fst ns')
                 \<and> (s = c \<or> (\<exists>d. calculate_distance gc c s = Inr d \<and> d < 1))) cs ss
           \<and> (\<forall>j<length ns'. length ns \<le> j \<longrightarrow>
                 (\<forall>i<j. \<exists>d. calculate_distance gc (fst (ns' ! j)) (fst (ns' ! i)) = Inr d \<and> 1 \<le> d))
           \<and> (distinct (map fst ns) \<longrightarrow> distinct (map fst ns'))"
  using assms
proof (induction cs arbitrary: ns acc)
  case Nil
  then have "ns' = ns @ map (\<lambda>k. (k, [])) []" "acc' = acc @ []" by simp_all
  then show ?case by fastforce
next
  case (Cons c cs)
  from Cons.prems obtain s where s: "get_or_create_node gc c (map fst ns) 1 = Inr s"
    by (auto split: sum.splits)
  define ns1 where "ns1 = (if s \<notin> set (map fst ns) then ns @ [(s, [])] else ns)"
  have rest: "snap_coords gc cs ns1 (acc @ [s]) = Inr (ns', acc')"
    using Cons.prems s by (simp add: ns1_def)
  from Cons.IH [OF rest] obtain new ss where
    IH: "ns' = ns1 @ map (\<lambda>k. (k, [])) new" "set new \<subseteq> set cs" "acc' = (acc @ [s]) @ ss"
      "list_all2 (\<lambda>c s. s \<in> set (map fst ns')
                 \<and> (s = c \<or> (\<exists>d. calculate_distance gc c s = Inr d \<and> d < 1))) cs ss"
      "\<forall>j<length ns'. length ns1 \<le> j \<longrightarrow>
          (\<forall>i<j. \<exists>d. calculate_distance gc (fst (ns' ! j)) (fst (ns' ! i)) = Inr d \<and> 1 \<le> d)"
      "distinct (map fst ns1) \<longrightarrow> distinct (map fst ns')"
    by blast
  note cases = get_or_create_node_cases [OF s]
  have s_in: "s \<in> set (map fst ns1)" by (auto simp: ns1_def)
  then have s_in': "s \<in> set (map fst ns')" using IH(1) by auto
  have s_ok: "s = c \<or> (\<exists>d. calculate_distance gc c s = Inr d \<and> d < 1)"
    using cases by blast
  show ?case
  proof (cases "s \<in> set (map fst ns)")
    case True
    then have ns1: "ns1 = ns" by (simp add: ns1_def)
    have "ns' = ns @ map (\<lambda>k. (k, [])) new" using IH(1) ns1 by simp
    moreover have "set new \<subseteq> set (c # cs)" using IH(2) by auto
    moreover have "acc' = acc @ (s # ss)" using IH(3) by simp
    moreover have "list_all2 (\<lambda>c s. s \<in> set (map fst ns')
                 \<and> (s = c \<or> (\<exists>d. calculate_distance gc c s = Inr d \<and> d < 1))) (c # cs) (s # ss)"
      using IH(4) s_in' s_ok by simp
    ultimately show ?thesis using IH(5,6) ns1 by blast
  next
    case False
    then have ns1: "ns1 = ns @ [(s, [])]" by (simp add: ns1_def)
    from False cases have sc: "s = c"
      and far: "\<forall>e\<in>set (map fst ns). \<exists>d'. calculate_distance gc c e = Inr d' \<and> 1 \<le> d'"
      by auto
    have eq: "ns' = ns @ map (\<lambda>k. (k, [])) (s # new)" using IH(1) ns1 by simp
    have sub: "set (s # new) \<subseteq> set (c # cs)" using IH(2) sc by auto
    have acc: "acc' = acc @ (s # ss)" using IH(3) by simp
    have la: "list_all2 (\<lambda>c s. s \<in> set (map fst ns')
                 \<and> (s = c \<or> (\<exists>d. calculate_distance gc c s = Inr d \<and> d < 1))) (c # cs) (s # ss)"
      using IH(4) s_in' s_ok by simp
    have sep: "\<forall>j<length ns'. length ns \<le> j \<longrightarrow>
          (\<forall>i<j. \<exists>d. calculate_distance gc (fst (ns' ! j)) (fst (ns' ! i)) = Inr d \<and> 1 \<le> d)"
    proof (intro allI impI)
      fix j i
      assume j: "j < length ns'" "length ns \<le> j" and i: "i < j"
      show "\<exists>d. calculate_distance gc (fst (ns' ! j)) (fst (ns' ! i)) = Inr d \<and> 1 \<le> d"
      proof (cases "j = length ns")
        case True
        then have "fst (ns' ! j) = c" using eq sc by (simp add: nth_append)
        moreover have "fst (ns' ! i) \<in> set (map fst ns)"
          using i True eq by (simp add: nth_append)
        ultimately show ?thesis using far by auto
      next
        case False
        then have "length ns1 \<le> j" using j(2) ns1 by simp
        then show ?thesis using IH(5) j(1) i by blast
      qed
    qed
    have dist: "distinct (map fst ns) \<longrightarrow> distinct (map fst ns')"
      using IH(6) False ns1 by simp
    from eq sub acc la sep dist show ?thesis by blast
  qed
qed

text \<open>
  Claim C4, as the code has it. When the snapping loop has processed a list of raw
  coordinates, each raw coordinate stands for a node that is the coordinate itself or
  lies at distance below 1 from it; the loop registers raw coordinates only, after the
  nodes it started from; and every node it registers is at distance 1 or more from
  every node registered before it. So a coordinate at distance 1 or more from every
  node becomes a node of its own, while two raw coordinates less than 1 apart share a
  node only when the lookup of each finds the same first node.
\<close>

theorem snapping_threshold_consistency:
  assumes "snap_coords gc cs ns [] = Inr (ns', snapped_coords)"
  shows "list_all2 (\<lambda>c s. s \<in> set (map fst ns')
             \<and> (s = c \<or> (\<exists>d. calculate_distance gc c s = Inr d \<and> d < 1))) cs snapped_coords
         \<and> (\<exists>new. map fst ns' = map fst ns @ new \<and> set new \<subseteq> set cs)
         \<and> (\<forall>j<length ns'. length ns \<le> j \<longrightarrow>
               (\<forall>i<j. \<exists>d. calculate_distance gc (fst (ns' ! j)) (fst (ns' ! i)) = Inr d \<and> 1 \<le> d))"
proof -
  from snap_coords_props [OF assms] obtain new ss where
    h: "ns' = ns @ map (\<lambda>k. (k, [])) new" "set new \<subseteq> set cs" "snapped_coords = [] @ ss"
      "list_all2 (\<lambda>c s. s \<in> set (map fst ns')
                 \<and> (s = c \<or> (\<exists>d. calculate_distance gc c s = Inr d \<and> d < 1))) cs ss"
      "\<forall>j<length ns'. length ns \<le> j \<longrightarrow>
          (\<forall>i<j. \<exists>d. calculate_distance gc (fst (ns' ! j)) (fst (ns' ! i)) = Inr d \<and> 1 \<le> d)"
    by blast
  have "map fst ns' = map fst ns @ new" using h(1) by (simp add: comp_def)
  with h show ?thesis by auto
qed

theorem snapping_threshold_consistency_witness:
  "snap_coords flat_gc [[0, 0], [0, 6 / 1000000], [0, 12 / 1000000]] [] []
     = Inr ([([0, 0], []), ([0, 12 / 1000000], [])], [[0, 0], [0, 0], [0, 12 / 1000000]])
   \<and> list_all2 (\<lambda>c s. s \<in> set (map fst [([0, 0], []), ([0, 12 / 1000000 :: real], [])])
             \<and> (s = c \<or> (\<exists>d. calculate_distance flat_gc c s = Inr d \<and> d < 1)))
        [[0, 0], [0, 6 / 1000000], [0, 12 / 1000000]] [[0, 0], [0, 0], [0, 12 / 1000000]]"
proof -
  have h: "snap_coords flat_gc [[0, 0], [0, 6 / 1000000], [0, 12 / 1000000]] [] []
     = Inr ([([0, 0], []), ([0, 12 / 1000000], [])], [[0, 0], [0, 0], [0, 12 / 1000000]])"
    by (simp add: calculate_distance_def flat_gc_def)
  have r: "list_all2 (\<lambda>c s. s \<in> set (map fst [([0, 0], []), ([0, 12 / 1000000 :: real], [])])
             \<and> (s = c \<or> (\<exists>d. calculate_distance flat_gc c s = Inr d \<and> d < 1)))
        [[0, 0], [0, 6 / 1000000], [0, 12 / 1000000]] [[0, 0], [0, 0], [0, 12 / 1000000]]"
    using snapping_threshold_consistency [OF h] by simp
  show ?thesis using h r by simp
qed

text \<open>
  Two raw coordinates within the threshold of each other on different nodes: on the
  meridian 0, latitude 0.000006 is 0.67 m from latitude 0, and is snapped to it;
  latitude 0.000012 is 0.67 m from the raw coordinate before it, but 1.33 m from the
  only node, and becomes a second node.
\<close>

theorem snapping_collapse_counterexample:
  "snap_coords flat_gc [[0, 0], [0, 6 / 1000000], [0, 12 / 1000000]] [] []
     = Inr ([([0, 0], []), ([0, 12 / 1000000], [])], [[0, 0], [0, 0], [0, 12 / 1000000]])
   \<and> calculate_distance flat_gc [0, 6 / 1000000] [0, 12 / 1000000] = Inr (66717 / 100000)
   \<and> (66717 / 100000 :: real) < 1
   \<and> [0, 0] \<noteq> [0, 12 / 1000000 :: real]"
  by (simp add: calculate_distance_def flat_gc_def)

subsection \<open>Unparseable geometry\<close>

lemmas eval_parse =
  parse_coords_list_def split_ws_def is_space_def decimal_float_def unsigned_decimal_def
  digit_of_def

lemmas eval_build =
  build_graph_def add_road_def calculate_distance_def flat_gc_def put_edge_def append_adj_def
  segment_length_at_def

lemma float_tuple_error: "float_tuple pyfloat ts = Inl e \<Longrightarrow> e = ValueError"
  by (induction ts arbitrary: e) (auto split: option.splits sum.splits)

lemma float_tuples_error: "float_tuples pyfloat cs = Inl e \<Longrightarrow> e = ValueError"
  by (induction cs arbitrary: e) (auto split: sum.splits dest: float_tuple_error)

lemma parse_coords_list_error: "parse_coords_list pyfloat w = Inl e \<Longrightarrow> e = ValueError"
  unfolding parse_coords_list_def by (rule float_tuples_error)

lemma build_roads_append:
  "build_roads gc pyfloat g (xs @ ys) =
     (case build_roads gc pyfloat g xs of
        Inl e \<Rightarrow> Inl e
      | Inr g' \<Rightarrow> build_roads gc pyfloat g' ys)"
  by (induction xs arbitrary: g) (auto split: sum.splits)

text \<open>
  Claim C7, as the code has it. When the geometry text of a road does not parse, and
  the roads before it were built, \<open>build_graph\<close> ends with the ValueError raised at
  that road, whatever roads follow it.
\<close>

theorem build_graph_unparseable_road:
  assumes "parse_coords_list pyfloat (wkt r) = Inl e"
    and "build_graph gc pyfloat pre = Inr g"
  shows "build_graph gc pyfloat (pre @ r # post) = Inl ValueError"
proof -
  have "e = ValueError" using assms(1) by (rule parse_coords_list_error)
  then have "add_road gc pyfloat g r = Inl ValueError"
    using assms(1) by (simp add: add_road_def)
  then show ?thesis
    using assms(2) by (simp add: build_graph_def build_roads_append)
qed

theorem build_graph_unparseable_road_witness:
  "parse_coords_list decimal_float (wkt empty_road) = Inl ValueError
   \<and> build_graph flat_gc decimal_float ([meridian_road] @ empty_road # [meridian_road])
       = Inl ValueError"
proof -
  have p: "parse_coords_list decimal_float (wkt empty_road) = Inl ValueError"
    by (simp add: eval_parse empty_road_def)
  have b: "build_graph flat_gc decimal_float [meridian_road] =
             Inr \<lparr>nodes = [([0, 0], [[0, 1 / 1000]]), ([0, 1 / 1000], [[0, 0]])],
                  edges = [([0, 0], [0, 1 / 1000]) \<mapsto>
                             \<lparr>edge_id = ''r1'', edge_length = 111195 / 1000,
                              geometry = [[0, 0], [0, 1 / 1000]]\<rparr>,
                           ([0, 1 / 1000], [0, 0]) \<mapsto>
                             \<lparr>edge_id = ''r1'', edge_length = 111195 / 1000,
                              geometry = [[0, 1 / 1000], [0, 0]]\<rparr>]\<rparr>"
    by (simp add: eval_parse eval_build meridian_road_def)
  show ?thesis
    using p build_graph_unparseable_road [OF p b, of "[meridian_road]"] by simp
qed

text \<open>
  The malformed road is not skipped: placed before a well-formed road, it ends the build
  with the exception, and the well-formed road, which alone gives a graph of two nodes,
  is never processed.
\<close>

theorem build_graph_skip_counterexample:
  "build_graph flat_gc decimal_float [empty_road, meridian_road] = Inl ValueError
   \<and> map_sum id node_keys (build_graph flat_gc decimal_float [meridian_road])
       = Inr [[0, 0], [0, 1 / 1000]]"
  by (simp add: eval_parse eval_build meridian_road_def empty_road_def node_keys_def)

subsection \<open>Referential closure\<close>

lemma node_keys_append_adj: "map fst (append_adj ns k v) = map fst ns"
  by (induction ns) (auto simp: append_adj_def)

lemma node_keys_put_edge: "node_keys (put_edge g rid l a b) = node_keys g"
  by (simp add: put_edge_def node_keys_def node_keys_append_adj)

lemma edges_put_edge:
  "edges (put_edge g rid l a b) =
     (edges g)((a, b) \<mapsto> \<lparr>edge_id = rid, edge_length = l, geometry = [a, b]\<rparr>)"
  by (simp add: put_edge_def)

lemma map_of_append_adj:
  "map_of (append_adj ns k v) x =
     (if x = k then map_option (\<lambda>vs. vs @ [v]) (map_of ns k) else map_of ns x)"
  by (induction ns) (auto simp: append_adj_def)

lemma adjacent_put_edge:
  "a \<in> set (node_keys g) \<Longrightarrow>
   adjacent (put_edge g rid l a b) x = (if x = a then adjacent g a @ [b] else adjacent g x)"
proof -
  assume "a \<in> set (node_keys g)"
  then obtain vs where "map_of (nodes g) a = Some vs"
    unfolding node_keys_def by (metis map_of_eq_None_iff not_None_eq set_map)
  then show ?thesis
    by (simp add: adjacent_def put_edge_def map_of_append_adj)
qed

lemma put_edge_closed:
  assumes "a \<in> set (node_keys g)" "b \<in> set (node_keys g)"
    and "edges_closed g" "adjacency_closed g"
  shows "edges_closed (put_edge g rid l a b) \<and> adjacency_closed (put_edge g rid l a b)"
  using assms
  by (auto simp: edges_closed_def adjacency_closed_def node_keys_put_edge edges_put_edge
      adjacent_put_edge split: if_splits)

lemma add_edges_closed:
  assumes "add_edges gc rid lens oneway i snapped g = Inr g'"
    and "set snapped \<subseteq> set (node_keys g)" "edges_closed g" "adjacency_closed g"
  shows "node_keys g' = node_keys g \<and> edges_closed g' \<and> adjacency_closed g'"
  using assms
proof (induction gc rid lens oneway i snapped g rule: add_edges.induct)
  case (1 gc rid lens oneway i a b rest g)
  from "1.prems"(1) obtain l where l: "segment_length_at gc lens i a b = Inr l"
    by (auto split: sum.splits)
  let ?g1 = "put_edge g rid l a b"
  let ?g2 = "if \<not> oneway then put_edge ?g1 rid l b a else ?g1"
  have ab: "a \<in> set (node_keys g)" "b \<in> set (node_keys g)" using "1.prems"(2) by auto
  have k1: "node_keys ?g1 = node_keys g" by (simp add: node_keys_put_edge)
  have c1: "edges_closed ?g1 \<and> adjacency_closed ?g1"
    using ab "1.prems"(3,4) by (rule put_edge_closed)
  have k2: "node_keys ?g2 = node_keys g" by (simp add: node_keys_put_edge)
  have "edges_closed (put_edge ?g1 rid l b a) \<and> adjacency_closed (put_edge ?g1 rid l b a)"
    using ab c1 by (intro put_edge_closed) (simp_all add: k1)
  with c1 have c2: "edges_closed ?g2" "adjacency_closed ?g2" by simp_all
  have rest: "add_edges gc rid lens oneway (Suc i) (b # rest) ?g2 = Inr g'"
    using "1.prems"(1) l by simp
  have sub: "set (b # rest) \<subseteq> set (node_keys ?g2)"
    using "1.prems"(2) k2 by auto
  from "1.IH" [OF l rest sub c2] k2 show ?case by simp
qed simp_all


lemma map_of_fresh_keys:
  "map_of (map (\<lambda>k. (k, c)) new) x = (if x \<in> set new then Some c else None)"
  by (induction new) auto

lemma adjacent_register:
  "adjacent (g\<lparr>nodes := nodes g @ map (\<lambda>k. (k, [])) new\<rparr>) x = adjacent g x"
  by (auto simp: adjacent_def map_add_def map_of_fresh_keys split: option.splits)

lemma add_road_closed:
  assumes "add_road gc pyfloat g r = Inr g'"
    and "edges_closed g" "adjacency_closed g" "distinct (node_keys g)"
  shows "edges_closed g' \<and> adjacency_closed g' \<and> distinct (node_keys g')"
proof -
  from assms(1) obtain coords_list ns snapped where
    sn: "snap_coords gc coords_list (nodes g) [] = Inr (ns, snapped)"
    and ae: "add_edges gc (road_ident r) (length_m r) (is_oneway r) 0 snapped (g\<lparr>nodes := ns\<rparr>)
               = Inr g'"
    by (auto simp: add_road_def split: sum.splits)
  from snap_coords_props [OF sn] obtain new ss where
    h: "ns = nodes g @ map (\<lambda>k. (k, [])) new" "snapped = [] @ ss"
      "list_all2 (\<lambda>c s. s \<in> set (map fst ns)
                 \<and> (s = c \<or> (\<exists>d. calculate_distance gc c s = Inr d \<and> d < 1))) coords_list ss"
      "distinct (map fst (nodes g)) \<longrightarrow> distinct (map fst ns)"
    by blast
  let ?g1 = "g\<lparr>nodes := ns\<rparr>"
  have keys: "set (node_keys g) \<subseteq> set (node_keys ?g1)"
    using h(1) by (auto simp: node_keys_def)
  have sub: "set snapped \<subseteq> set (node_keys ?g1)"
    using h(2,3) by (auto simp: node_keys_def list_all2_conv_all_nth in_set_conv_nth)
  have ec: "edges_closed ?g1"
    using assms(2) keys by (auto simp: edges_closed_def)
  have adj: "adjacent ?g1 x = adjacent g x" for x
    unfolding h(1) by (rule adjacent_register)
  have nokey: "adjacent g x = []" if "x \<notin> set (node_keys g)" for x
  proof -
    from that have "map_of (nodes g) x = None"
      by (simp add: node_keys_def map_of_eq_None_iff)
    then show ?thesis by (simp add: adjacent_def)
  qed
  have ac: "adjacency_closed ?g1"
    unfolding adjacency_closed_def
  proof
    fix k assume "k \<in> set (node_keys ?g1)"
    show "set (adjacent ?g1 k) \<subseteq> set (node_keys ?g1)"
    proof (cases "k \<in> set (node_keys g)")
      case True
      then show ?thesis using assms(3) keys by (auto simp: adj adjacency_closed_def)
    next
      case False
      then show ?thesis by (simp add: adj nokey)
    qed
  qed
  have di: "distinct (node_keys ?g1)"
    using h(4) assms(4) by (simp add: node_keys_def)
  from add_edges_closed [OF ae sub ec ac] di show ?thesis by simp
qed

lemma build_roads_closed:
  assumes "build_roads gc pyfloat g rs = Inr g'"
    and "edges_closed g" "adjacency_closed g" "distinct (node_keys g)"
  shows "edges_closed g' \<and> adjacency_closed g' \<and> distinct (node_keys g')"
  using assms
proof (induction rs arbitrary: g)
  case Nil
  then show ?case by simp
next
  case (Cons r rs)
  from Cons.prems(1) obtain g1 where g1: "add_road gc pyfloat g r = Inr g1"
    and rest: "build_roads gc pyfloat g1 rs = Inr g'"
    by (auto split: sum.splits)
  from add_road_closed [OF g1 Cons.prems(2,3,4)] Cons.IH [OF rest] show ?case by blast
qed

lemma build_meridian_road:
  "build_graph flat_gc decimal_float [meridian_road] = Inr meridian_graph"
  by (simp add: eval_parse eval_build meridian_road_def meridian_graph_def)

text \<open>
  Claim C9. In the graph \<open>build_graph\<close> returns, both endpoints of every edge of the
  edge dict are keys of the node dict, every key has an adjacency list, whose entries
  are keys too, and no key occurs twice.
\<close>

theorem build_graph_referentially_closed:
  assumes "build_graph gc pyfloat roads = Inr g"
  shows "(\<forall>a b e. edges g (a, b) = Some e \<longrightarrow>
            a \<in> set (node_keys g) \<and> b \<in> set (node_keys g))
         \<and> (\<forall>k\<in>set (node_keys g). \<exists>vs. map_of (nodes g) k = Some vs
               \<and> set vs \<subseteq> set (node_keys g))
         \<and> distinct (node_keys g)"
proof -
  let ?g0 = "\<lparr>nodes = [], edges = Map.empty\<rparr>"
  have "edges_closed ?g0" "adjacency_closed ?g0" "distinct (node_keys ?g0)"
    by (simp_all add: edges_closed_def adjacency_closed_def node_keys_def)
  with assms have inv: "edges_closed g" "adjacency_closed g" "distinct (node_keys g)"
    unfolding build_graph_def using build_roads_closed by blast+
  have "\<exists>vs. map_of (nodes g) k = Some vs \<and> set vs \<subseteq> set (node_keys g)"
    if k: "k \<in> set (node_keys g)" for k
  proof -
    from k obtain vs where vs: "map_of (nodes g) k = Some vs"
      unfolding node_keys_def by (metis map_of_eq_None_iff not_None_eq set_map)
    then have "adjacent g k = vs" by (simp add: adjacent_def)
    with inv(2) k vs show ?thesis by (auto simp: adjacency_closed_def)
  qed
  with inv(1,3) show ?thesis unfolding edges_closed_def by blast
qed

theorem build_graph_referentially_closed_witness:
  "build_graph flat_gc decimal_float [meridian_road] = Inr meridian_graph
   \<and> distinct (node_keys meridian_graph)
   \<and> node_keys meridian_graph = [[0, 0], [0, 1 / 1000]]"
  using build_meridian_road build_graph_referentially_closed [OF build_meridian_road]
  by (simp add: node_keys_def meridian_graph_def)

subsection \<open>Edge lengths\<close>

lemma segment_length_at_cases:
  assumes "segment_length_at gc lens i x y = Inr l"
  shows "(\<exists>ls. lens = Some ls \<and> i < length ls \<and> l = ls ! i)
         \<or> ((\<forall>ls. lens = Some ls \<longrightarrow> length ls \<le> i) \<and> calculate_distance gc x y = Inr l)"
  using assms by (auto simp: segment_length_at_def split: option.splits if_splits)

lemma put_edge_origin:
  assumes "edges (put_edge g rid l x y) (a, b) = Some e"
  shows "edges g (a, b) = Some e \<or> ((a, b) = (x, y) \<and> edge_id e = rid \<and> edge_length e = l)"
  using assms by (auto simp: edges_put_edge split: if_splits)

text \<open>
  The edge loop started at index \<open>i\<close> on the list \<open>xs\<close>: an edge of its result was there
  before, or is the edge of the segment at a position \<open>j\<close> of \<open>xs\<close>, with the length the
  source computes at the index \<open>i + j\<close>.
\<close>

lemma add_edges_origin:
  assumes "add_edges gc rid lens oneway i xs g = Inr g'" and "edges g' (a, b) = Some e"
  shows "edges g (a, b) = Some e
         \<or> (\<exists>j. Suc j < length xs \<and> edge_id e = rid
               \<and> ((a, b) = (xs ! j, xs ! Suc j) \<or> (b, a) = (xs ! j, xs ! Suc j) \<and> \<not> oneway)
               \<and> segment_length_at gc lens (i + j) (xs ! j) (xs ! Suc j) = Inr (edge_length e))"
  using assms
proof (induction xs arbitrary: i g)
  case Nil
  then show ?case by simp
next
  case (Cons x tl_xs)
  show ?case
  proof (cases tl_xs)
    case Nil
    with Cons.prems show ?thesis by simp
  next
    case (Cons y rest)
    from Cons.prems(1) Cons obtain l where l: "segment_length_at gc lens i x y = Inr l"
      by (auto split: sum.splits)
    let ?g1 = "put_edge g rid l x y"
    let ?g2 = "if \<not> oneway then put_edge ?g1 rid l y x else ?g1"
    have rest: "add_edges gc rid lens oneway (Suc i) tl_xs ?g2 = Inr g'"
      using Cons.prems(1) Cons l by simp
    from Cons.IH [OF rest Cons.prems(2)] show ?thesis
    proof
      assume old: "edges ?g2 (a, b) = Some e"
      have "edges g (a, b) = Some e
            \<or> ((a, b) = (x, y) \<and> edge_id e = rid \<and> edge_length e = l)
            \<or> ((a, b) = (y, x) \<and> \<not> oneway \<and> edge_id e = rid \<and> edge_length e = l)"
      proof (cases oneway)
        case True
        with old have "edges ?g1 (a, b) = Some e" by simp
        from put_edge_origin [OF this] show ?thesis by blast
      next
        case False
        with old have "edges (put_edge ?g1 rid l y x) (a, b) = Some e" by simp
        from put_edge_origin [OF this] show ?thesis
        proof
          assume "edges ?g1 (a, b) = Some e"
          from put_edge_origin [OF this] show ?thesis by blast
        next
          assume "(a, b) = (y, x) \<and> edge_id e = rid \<and> edge_length e = l"
          with False show ?thesis by blast
        qed
      qed
      then consider "edges g (a, b) = Some e"
        | "(a, b) = (x, y)" "edge_id e = rid" "edge_length e = l"
        | "(a, b) = (y, x)" "\<not> oneway" "edge_id e = rid" "edge_length e = l"
        by blast
      then show ?thesis
      proof cases
        case 1
        then show ?thesis by simp
      next
        case 2
        have "Suc 0 < length (x # tl_xs)" using Cons by simp
        moreover have "(a, b) = ((x # tl_xs) ! 0, (x # tl_xs) ! Suc 0)" using 2(1) Cons by simp
        moreover have "segment_length_at gc lens (i + 0) ((x # tl_xs) ! 0) ((x # tl_xs) ! Suc 0)
                         = Inr (edge_length e)"
          using l 2(3) Cons by simp
        ultimately show ?thesis using 2(2) by blast
      next
        case 3
        have "Suc 0 < length (x # tl_xs)" using Cons by simp
        moreover have "(b, a) = ((x # tl_xs) ! 0, (x # tl_xs) ! Suc 0)" using 3(1) Cons by simp
        moreover have "segment_length_at gc lens (i + 0) ((x # tl_xs) ! 0) ((x # tl_xs) ! Suc 0)
                         = Inr (edge_length e)"
          using l 3(4) Cons by simp
        ultimately show ?thesis using 3(2,3) by blast
      qed
    next
      assume "\<exists>j. Suc j < length tl_xs \<and> edge_id e = rid
               \<and> ((a, b) = (tl_xs ! j, tl_xs ! Suc j)
                  \<or> (b, a) = (tl_xs ! j, tl_xs ! Suc j) \<and> \<not> oneway)
               \<and> segment_length_at gc lens (Suc i + j) (tl_xs ! j) (tl_xs ! Suc j)
                   = Inr (edge_length e)"
      then obtain j where j: "Suc j < length tl_xs" "edge_id e = rid"
        "(a, b) = (tl_xs ! j, tl_xs ! Suc j) \<or> (b, a) = (tl_xs ! j, tl_xs ! Suc j) \<and> \<not> oneway"
        "segment_length_at gc lens (Suc i + j) (tl_xs ! j) (tl_xs ! Suc j) = Inr (edge_length e)"
        by blast
      have "Suc (Suc j) < length (x # tl_xs)" using j(1) by simp
      moreover have "(a, b) = ((x # tl_xs) ! Suc j, (x # tl_xs) ! Suc (Suc j))
          \<or> (b, a) = ((x # tl_xs) ! Suc j, (x # tl_xs) ! Suc (Suc j)) \<and> \<not> oneway"
        using j(3) by simp
      moreover have "segment_length_at gc lens (i + Suc j) ((x # tl_xs) ! Suc j)
                       ((x # tl_xs) ! Suc (Suc j)) = Inr (edge_length e)"
        using j(4) by simp
      ultimately show ?thesis using j(2) by blast
    qed
  qed
qed

lemma add_road_origin:
  assumes "add_road gc pyfloat g r = Inr g'" and "edges g' (a, b) = Some e"
  shows "edges g (a, b) = Some e
         \<or> (\<exists>coords_list ns snapped_coords i.
               parse_coords_list pyfloat (wkt r) = Inr coords_list
               \<and> snap_coords gc coords_list (nodes g) [] = Inr (ns, snapped_coords)
               \<and> Suc i < length snapped_coords
               \<and> edge_id e = road_ident r
               \<and> ((a, b) = (snapped_coords ! i, snapped_coords ! Suc i)
                  \<or> (b, a) = (snapped_coords ! i, snapped_coords ! Suc i) \<and> \<not> is_oneway r)
               \<and> segment_length_at gc (length_m r) i (snapped_coords ! i)
                     (snapped_coords ! Suc i) = Inr (edge_length e))"
proof -
  from assms(1) obtain coords_list ns snapped where
    pc: "parse_coords_list pyfloat (wkt r) = Inr coords_list"
    and sn: "snap_coords gc coords_list (nodes g) [] = Inr (ns, snapped)"
    and ae: "add_edges gc (road_ident r) (length_m r) (is_oneway r) 0 snapped (g\<lparr>nodes := ns\<rparr>)
               = Inr g'"
    by (auto simp: add_road_def split: sum.splits)
  from add_edges_origin [OF ae assms(2)] show ?thesis
  proof
    assume "edges (g\<lparr>nodes := ns\<rparr>) (a, b) = Some e"
    then show ?thesis by simp
  next
    assume "\<exists>j. Suc j < length snapped \<and> edge_id e = road_ident r
               \<and> ((a, b) = (snapped ! j, snapped ! Suc j)
                  \<or> (b, a) = (snapped ! j, snapped ! Suc j) \<and> \<not> is_oneway r)
               \<and> segment_length_at gc (length_m r) (0 + j) (snapped ! j) (snapped ! Suc j)
                   = Inr (edge_length e)"
    then show ?thesis using pc sn by auto
  qed
qed

lemma build_roads_origin:
  assumes "roads = done @ rest" and "build_graph gc pyfloat done = Inr g1"
    and "\<forall>a b e. edges g1 (a, b) = Some e \<longrightarrow> segment_edge gc pyfloat roads a b e"
    and "build_roads gc pyfloat g1 rest = Inr g"
  shows "\<forall>a b e. edges g (a, b) = Some e \<longrightarrow> segment_edge gc pyfloat roads a b e"
  using assms
proof (induction rest arbitrary: "done" g1)
  case Nil
  then show ?case by simp
next
  case (Cons r rest)
  from Cons.prems(4) obtain g2 where g2: "add_road gc pyfloat g1 r = Inr g2"
    and rest: "build_roads gc pyfloat g2 rest = Inr g"
    by (auto split: sum.splits)
  have roads: "roads = (done @ [r]) @ rest" using Cons.prems(1) by simp
  have built: "build_graph gc pyfloat (done @ [r]) = Inr g2"
    using Cons.prems(2) g2 by (simp add: build_graph_def build_roads_append)
  have "\<forall>a b e. edges g2 (a, b) = Some e \<longrightarrow> segment_edge gc pyfloat roads a b e"
  proof (intro allI impI)
    fix a b e
    assume "edges g2 (a, b) = Some e"
    from add_road_origin [OF g2 this] show "segment_edge gc pyfloat roads a b e"
    proof
      assume "edges g1 (a, b) = Some e"
      then show ?thesis using Cons.prems(3) by blast
    next
      assume "\<exists>coords_list ns snapped_coords i.
               parse_coords_list pyfloat (wkt r) = Inr coords_list
               \<and> snap_coords gc coords_list (nodes g1) [] = Inr (ns, snapped_coords)
               \<and> Suc i < length snapped_coords
               \<and> edge_id e = road_ident r
               \<and> ((a, b) = (snapped_coords ! i, snapped_coords ! Suc i)
                  \<or> (b, a) = (snapped_coords ! i, snapped_coords ! Suc i) \<and> \<not> is_oneway r)
               \<and> segment_length_at gc (length_m r) i (snapped_coords ! i)
                     (snapped_coords ! Suc i) = Inr (edge_length e)"
      then show ?thesis
        unfolding segment_edge_def using Cons.prems(1,2) by blast
    qed
  qed
  from Cons.IH [OF roads built this rest] show ?case .
qed

lemma build_two_segment_road:
  "build_graph flat_gc decimal_float [two_segment_road] = Inr two_segment_graph"
  by (simp add: eval_parse eval_build two_segment_road_def two_segment_graph_def)

text \<open>
  Claim C8, as the code has it. Every edge of the built graph is the edge of one segment
  of one road of the input: its key is the pair of the snapped coordinates at the
  positions \<open>i\<close> and \<open>i + 1\<close> of that road, snapped on the graph the roads before it
  build (or the mirrored pair, for a two-way road), it carries the id of the road, and
  its length is the entry at index \<open>i\<close> of the stored lengths of the road when the list
  has one there, and otherwise the distance computed between the two snapped
  coordinates. The length is 0 or more when the distance function and all stored
  lengths are; a negative stored length is used as it is.
\<close>

theorem edge_length_provided_or_recomputed:
  assumes "build_graph gc pyfloat roads = Inr g" and "edges g (a, b) = Some e"
  shows "(\<exists>pre r post g0 coords_list ns snapped_coords i.
            roads = pre @ r # post
            \<and> build_graph gc pyfloat pre = Inr g0
            \<and> parse_coords_list pyfloat (wkt r) = Inr coords_list
            \<and> snap_coords gc coords_list (nodes g0) [] = Inr (ns, snapped_coords)
            \<and> Suc i < length snapped_coords
            \<and> edge_id e = road_ident r
            \<and> ((a, b) = (snapped_coords ! i, snapped_coords ! Suc i)
               \<or> (b, a) = (snapped_coords ! i, snapped_coords ! Suc i) \<and> \<not> is_oneway r)
            \<and> ((\<exists>ls. length_m r = Some ls \<and> i < length ls \<and> edge_length e = ls ! i)
               \<or> ((\<forall>ls. length_m r = Some ls \<longrightarrow> length ls \<le> i)
                  \<and> calculate_distance gc (snapped_coords ! i) (snapped_coords ! Suc i)
                      = Inr (edge_length e))))
         \<and> ((\<forall>p q. 0 \<le> gc p q)
              \<and> (\<forall>r\<in>set roads. \<forall>ls. length_m r = Some ls \<longrightarrow> (\<forall>l\<in>set ls. 0 \<le> l))
            \<longrightarrow> 0 \<le> edge_length e)"
proof -
  let ?g0 = "\<lparr>nodes = [], edges = Map.empty\<rparr> :: road_graph"
  have "\<forall>a b e. edges g (a, b) = Some e \<longrightarrow> segment_edge gc pyfloat roads a b e"
  proof (rule build_roads_origin [where ?done = "[]" and rest = roads and ?g1.0 = ?g0])
    show "roads = [] @ roads" by simp
    show "build_graph gc pyfloat [] = Inr ?g0" by (simp add: build_graph_def)
    show "\<forall>a b e. edges ?g0 (a, b) = Some e \<longrightarrow> segment_edge gc pyfloat roads a b e" by simp
    show "build_roads gc pyfloat ?g0 roads = Inr g" using assms(1) by (simp add: build_graph_def)
  qed
  with assms(2) have "segment_edge gc pyfloat roads a b e" by blast
  then obtain pre r post g0 coords_list ns snapped i where
    o: "roads = pre @ r # post" "build_graph gc pyfloat pre = Inr g0"
      "parse_coords_list pyfloat (wkt r) = Inr coords_list"
      "snap_coords gc coords_list (nodes g0) [] = Inr (ns, snapped)"
      "Suc i < length snapped" "edge_id e = road_ident r"
      "(a, b) = (snapped ! i, snapped ! Suc i)
         \<or> (b, a) = (snapped ! i, snapped ! Suc i) \<and> \<not> is_oneway r"
    and sl: "segment_length_at gc (length_m r) i (snapped ! i) (snapped ! Suc i)
               = Inr (edge_length e)"
    unfolding segment_edge_def by blast
  note c = segment_length_at_cases [OF sl]
  have r_in: "r \<in> set roads" using o(1) by simp
  have nonneg: "0 \<le> edge_length e"
    if gc: "\<forall>p q. 0 \<le> gc p q"
      and ls: "\<forall>r\<in>set roads. \<forall>ls. length_m r = Some ls \<longrightarrow> (\<forall>l\<in>set ls. 0 \<le> l)"
  proof -
    from c show ?thesis
    proof
      assume "\<exists>ls. length_m r = Some ls \<and> i < length ls \<and> edge_length e = ls ! i"
      then obtain ls where "length_m r = Some ls" "i < length ls" "edge_length e = ls ! i"
        by blast
      moreover from this have "ls ! i \<in> set ls" by simp
      ultimately show ?thesis using ls r_in by auto
    next
      assume "(\<forall>ls. length_m r = Some ls \<longrightarrow> length ls \<le> i)
                \<and> calculate_distance gc (snapped ! i) (snapped ! Suc i) = Inr (edge_length e)"
      then have "edge_length e
                   = gc (snapped ! i ! 1, snapped ! i ! 0) (snapped ! Suc i ! 1, snapped ! Suc i ! 0)"
        by (auto simp: calculate_distance_def split: if_splits)
      then show ?thesis using gc by simp
    qed
  qed
  from o c nonneg show ?thesis by blast
qed

text \<open>
  The theorem at the second segment of the road of two segments: the edge between the
  second and the third node has the second stored length, 7, not the first, 120.
\<close>

theorem edge_length_provided_or_recomputed_witness:
  "build_graph flat_gc decimal_float [two_segment_road] = Inr two_segment_graph
   \<and> length_m two_segment_road = Some [120, 7]
   \<and> edges two_segment_graph ([0, 1 / 1000], [0, 1 / 500])
       = Some \<lparr>edge_id = ''r4'', edge_length = [120, 7] ! 1,
               geometry = [[0, 1 / 1000], [0, 1 / 500]]\<rparr>
   \<and> (0::real) \<le> edge_length \<lparr>edge_id = ''r4'', edge_length = 7,
               geometry = [[0, 1 / 1000], [0, 1 / 500]]\<rparr>"
proof -
  have e: "edges two_segment_graph ([0, 1 / 1000], [0, 1 / 500])
       = Some \<lparr>edge_id = ''r4'', edge_length = 7,
               geometry = [[0, 1 / 1000], [0, 1 / 500]]\<rparr>"
    by (simp add: two_segment_graph_def)
  have gc: "\<forall>p q. 0 \<le> flat_gc p q" by (simp add: flat_gc_def)
  have ls: "\<forall>r\<in>set [two_segment_road]. \<forall>ls. length_m r = Some ls \<longrightarrow> (\<forall>l\<in>set ls. 0 \<le> l)"
    by (simp add: two_segment_road_def)
  from edge_length_provided_or_recomputed [OF build_two_segment_road e] gc ls
  have "0 \<le> edge_length \<lparr>edge_id = ''r4'', edge_length = 7,
               geometry = [[0, 1 / 1000], [0, 1 / 500 :: real]]\<rparr>"
    by blast
  with build_two_segment_road e show ?thesis by (simp add: two_segment_road_def)
qed

text \<open>
  An edge of negative cost: the stored length \<open>-5\<close> of the first segment is in range for
  the only segment of the road, and becomes the length of its edge.
\<close>

theorem edge_length_negative_counterexample:
  "map_sum id (\<lambda>g. map_option edge_length (edges g ([0, 0], [0, 1 / 1000])))
     (build_graph flat_gc decimal_float [negative_road]) = Inr (Some (- 5))
   \<and> (- 5 :: real) < 0"
  by (simp add: eval_parse eval_build negative_road_def)

subsection \<open>Repeated node pairs\<close>

lemma last_written_append:
  "last_written (cs1 @ cs2) k =
     (case last_written cs2 k of None \<Rightarrow> last_written cs1 k | Some e \<Rightarrow> Some e)"
proof -
  have alt: "last_written cs k =
      (if calls_for cs k = [] then None
       else (case last (calls_for cs k) of
               (rid, l, a, b) \<Rightarrow> Some \<lparr>edge_id = rid, edge_length = l, geometry = [a, b]\<rparr>))"
    for cs
    by (simp add: last_written_def del: last.simps split: list.splits)
  have app: "calls_for (cs1 @ cs2) k = calls_for cs1 k @ calls_for cs2 k"
    by (simp add: calls_for_def)
  show ?thesis
    by (simp add: alt app split: prod.splits)
qed

lemma appended_to_append: "appended_to (cs1 @ cs2) x = appended_to cs1 x @ appended_to cs2 x"
  by (simp add: appended_to_def)

lemma effect_refl: "effect g [] g"
  by (simp add: effect_def last_written_def calls_for_def appended_to_def)

lemma effect_trans:
  assumes "effect g cs1 g1" and "effect g1 cs2 g2"
  shows "effect g (cs1 @ cs2) g2"
  using assms
  by (auto simp: effect_def last_written_append appended_to_append split: option.splits)

lemma effect_put_edge:
  assumes "a \<in> set (node_keys g)"
  shows "effect g [(rid, l, a, b)] (put_edge g rid l a b)"
  using assms
  by (auto simp: effect_def last_written_def calls_for_def appended_to_def edges_put_edge
      adjacent_put_edge)

lemma effect_register:
  "effect g [] (g\<lparr>nodes := nodes g @ map (\<lambda>k. (k, [])) new\<rparr>)"
  by (simp add: effect_def last_written_def calls_for_def appended_to_def adjacent_register)

lemma add_edges_effect:
  assumes "add_edges gc rid lens oneway i snapped g = Inr g'"
    and "set snapped \<subseteq> set (node_keys g)"
  shows "effect g (edge_calls gc rid lens oneway i snapped) g'"
  using assms
proof (induction snapped arbitrary: i g)
  case Nil
  then show ?case by (simp add: effect_refl)
next
  case (Cons a tl_snapped)
  show ?case
  proof (cases tl_snapped)
    case Nil
    with Cons.prems show ?thesis by (simp add: effect_refl)
  next
    case (Cons b rest)
    from Cons.prems(1) Cons obtain l where l: "segment_length_at gc lens i a b = Inr l"
      by (auto split: sum.splits)
    let ?g1 = "put_edge g rid l a b"
    let ?g2 = "if \<not> oneway then put_edge ?g1 rid l b a else ?g1"
    let ?c12 = "(rid, l, a, b) # (if \<not> oneway then [(rid, l, b, a)] else [])"
    have ab: "a \<in> set (node_keys g)" "b \<in> set (node_keys g)"
      using Cons.prems(2) Cons by auto
    have e1: "effect g [(rid, l, a, b)] ?g1" using ab(1) by (rule effect_put_edge)
    have e2: "effect g ?c12 ?g2"
    proof (cases oneway)
      case True
      then show ?thesis using e1 by simp
    next
      case False
      have "effect ?g1 [(rid, l, b, a)] (put_edge ?g1 rid l b a)"
        using ab(2) by (intro effect_put_edge) (simp add: node_keys_put_edge)
      from effect_trans [OF e1 this] False show ?thesis by simp
    qed
    have rest: "add_edges gc rid lens oneway (Suc i) tl_snapped ?g2 = Inr g'"
      using Cons.prems(1) Cons l by simp
    have sub: "set tl_snapped \<subseteq> set (node_keys ?g2)"
      using Cons.prems(2) by (auto simp: node_keys_put_edge)
    have "effect ?g2 (edge_calls gc rid lens oneway (Suc i) tl_snapped) g'"
      using rest sub by (rule Cons.IH)
    from effect_trans [OF e2 this] show ?thesis using Cons l by simp
  qed
qed

lemma add_road_effect:
  assumes "add_road gc pyfloat g r = Inr g'"
  shows "effect g (road_calls gc pyfloat g r) g'"
proof -
  from assms obtain coords_list ns snapped where
    pc: "parse_coords_list pyfloat (wkt r) = Inr coords_list"
    and sn: "snap_coords gc coords_list (nodes g) [] = Inr (ns, snapped)"
    and ae: "add_edges gc (road_ident r) (length_m r) (is_oneway r) 0 snapped (g\<lparr>nodes := ns\<rparr>)
               = Inr g'"
    by (auto simp: add_road_def split: sum.splits)
  from snap_coords_props [OF sn] obtain new ss where
    h: "ns = nodes g @ map (\<lambda>k. (k, [])) new" "snapped = [] @ ss"
      "list_all2 (\<lambda>c s. s \<in> set (map fst ns)
                 \<and> (s = c \<or> (\<exists>d. calculate_distance gc c s = Inr d \<and> d < 1))) coords_list ss"
    by blast
  let ?g1 = "g\<lparr>nodes := ns\<rparr>"
  have sub: "set snapped \<subseteq> set (node_keys ?g1)"
    using h(2,3) by (auto simp: node_keys_def list_all2_conv_all_nth in_set_conv_nth)
  have e1: "effect g [] ?g1" unfolding h(1) by (rule effect_register)
  have e2: "effect ?g1 (edge_calls gc (road_ident r) (length_m r) (is_oneway r) 0 snapped) g'"
    using ae sub by (rule add_edges_effect)
  from effect_trans [OF e1 e2] show ?thesis by (simp add: road_calls_def pc sn)
qed

lemma build_roads_effect:
  assumes "build_roads gc pyfloat g rs = Inr g'"
  shows "effect g (build_calls gc pyfloat g rs) g'"
  using assms
proof (induction rs arbitrary: g)
  case Nil
  then show ?case by (simp add: effect_refl)
next
  case (Cons r rs)
  from Cons.prems obtain g1 where g1: "add_road gc pyfloat g r = Inr g1"
    and rest: "build_roads gc pyfloat g1 rs = Inr g'"
    by (auto split: sum.splits)
  from effect_trans [OF add_road_effect [OF g1] Cons.IH [OF rest]] show ?case
    by (simp add: g1)
qed

lemma count_appended_to:
  "count_list (appended_to calls x) y = length (calls_for calls (x, y))"
  by (induction calls) (auto simp: appended_to_def calls_for_def)

lemma build_overlay:
  "build_graph flat_gc decimal_float [meridian_road, overlay_road] = Inr overlay_graph"
  by (simp add: eval_parse eval_build meridian_road_def overlay_road_def overlay_graph_def)

text \<open>
  Claim C10. Of all the segments of a build that produce the ordered node pair
  \<open>(A, B)\<close>, the edge dict of the built graph keeps the one written last, with its road
  id and length (and no edge when there is none), while the adjacency list of \<open>A\<close>
  holds \<open>B\<close> once for each of them.
\<close>

theorem repeated_pair_last_edge_wins:
  assumes "build_graph gc pyfloat roads = Inr g"
  shows "edges g (A, B)
           = last_written (build_calls gc pyfloat \<lparr>nodes = [], edges = Map.empty\<rparr> roads) (A, B)
         \<and> count_list (adjacent g A) B
           = length (calls_for (build_calls gc pyfloat \<lparr>nodes = [], edges = Map.empty\<rparr> roads)
                       (A, B))"
proof -
  let ?g0 = "\<lparr>nodes = [], edges = Map.empty\<rparr> :: road_graph"
  let ?calls = "build_calls gc pyfloat ?g0 roads"
  have e: "effect ?g0 ?calls g"
    using assms unfolding build_graph_def by (rule build_roads_effect)
  have "edges g (A, B) = last_written ?calls (A, B)"
    using e by (auto simp: effect_def split: option.splits)
  moreover have "adjacent g A = appended_to ?calls A"
    using e by (simp add: effect_def adjacent_def)
  ultimately show ?thesis by (simp add: count_appended_to)
qed

theorem repeated_pair_last_edge_wins_witness:
  "build_graph flat_gc decimal_float [meridian_road, overlay_road] = Inr overlay_graph
   \<and> build_calls flat_gc decimal_float \<lparr>nodes = [], edges = Map.empty\<rparr>
        [meridian_road, overlay_road]
       = [(''r1'', 111195 / 1000, [0, 0], [0, 1 / 1000]),
          (''r1'', 111195 / 1000, [0, 1 / 1000], [0, 0]),
          (''r3'', 120, [0, 0], [0, 1 / 1000])]
   \<and> edges overlay_graph ([0, 0], [0, 1 / 1000])
       = Some \<lparr>edge_id = ''r3'', edge_length = 120, geometry = [[0, 0], [0, 1 / 1000]]\<rparr>
   \<and> count_list (adjacent overlay_graph [0, 0]) [0, 1 / 1000] = 2"
proof -
  have calls: "build_calls flat_gc decimal_float \<lparr>nodes = [], edges = Map.empty\<rparr>
        [meridian_road, overlay_road]
       = [(''r1'', 111195 / 1000, [0, 0], [0, 1 / 1000]),
          (''r1'', 111195 / 1000, [0, 1 / 1000], [0, 0]),
          (''r3'', 120, [0, 0], [0, 1 / 1000])]"
    by (simp add: eval_parse eval_build road_calls_def meridian_road_def overlay_road_def)
  from repeated_pair_last_edge_wins [OF build_overlay, of "[0, 0]" "[0, 1 / 1000]"]
  have "edges overlay_graph ([0, 0], [0, 1 / 1000])
       = Some \<lparr>edge_id = ''r3'', edge_length = 120, geometry = [[0, 0], [0, 1 / 1000]]\<rparr>
     \<and> count_list (adjacent overlay_graph [0, 0]) [0, 1 / 1000] = 2"
    unfolding calls by (simp add: last_written_def calls_for_def)
  with build_overlay calls show ?thesis by simp
qed

subsection \<open>The search loop\<close>

lemma search_invI:
  assumes "set vis \<inter> set unv = {}" "[] \<notin> set vis" "[] \<notin> set unv"
    and "\<And>n c. p n = Some c \<Longrightarrow> \<exists>xs ys. vis = xs @ c # ys \<and> n \<notin> set xs \<and> n \<noteq> c"
    and "\<And>n c. p n = Some c \<Longrightarrow>
           \<exists>e l. edges g (c, n) = Some e \<and> d c = Fin l \<and> d n = Fin (l + edge_length e)"
    and "p sn = None" "d sn = Fin 0"
    and "\<And>n. d n \<noteq> PInf \<Longrightarrow> n = sn \<or> p n \<noteq> None"
    and "sn \<in> set unv \<Longrightarrow> p = Map.empty"
  shows "search_inv g sn vis (d, p, unv)"
  using assms unfolding search_inv_def by simp

lemma search_invD:
  assumes "search_inv g sn vis (d, p, unv)"
  shows "set vis \<inter> set unv = {}" "[] \<notin> set vis" "[] \<notin> set unv"
    and "\<And>n c. p n = Some c \<Longrightarrow> \<exists>xs ys. vis = xs @ c # ys \<and> n \<notin> set xs \<and> n \<noteq> c"
    and "\<And>n c. p n = Some c \<Longrightarrow>
           \<exists>e l. edges g (c, n) = Some e \<and> d c = Fin l \<and> d n = Fin (l + edge_length e)"
    and "p sn = None" "d sn = Fin 0"
    and "\<And>n. d n \<noteq> PInf \<Longrightarrow> n = sn \<or> p n \<noteq> None"
    and "sn \<in> set unv \<Longrightarrow> p = Map.empty"
  using assms unfolding search_inv_def by simp_all

lemma relax_update_inv:
  assumes inv: "search_inv g sn vis (d, p, unv)"
    and cur: "current \<in> set vis" and sn: "sn \<notin> set unv" and nb: "nb \<in> set unv"
    and e: "edges g (current, nb) = Some e" and fin: "d current = Fin l"
  shows "search_inv g sn vis (d(nb := Fin (l + edge_length e)), p(nb \<mapsto> current), unv)"
proof (rule search_invI)
  note I = search_invD [OF inv]
  have nbvis: "nb \<notin> set vis" using I(1) nb by auto
  then have nbcur: "nb \<noteq> current" using cur by auto
  have nbsn: "nb \<noteq> sn" using sn nb by auto
  show "set vis \<inter> set unv = {}" "[] \<notin> set vis" "[] \<notin> set unv" by (rule I)+
  show "\<exists>xs ys. vis = xs @ c # ys \<and> n \<notin> set xs \<and> n \<noteq> c"
    if "(p(nb \<mapsto> current)) n = Some c" for n c
  proof (cases "n = nb")
    case True
    then have c: "c = current" using that by simp
    from cur obtain xs ys where "vis = xs @ current # ys" by (meson split_list)
    moreover from this nbvis have "nb \<notin> set xs" by auto
    ultimately show ?thesis using True c nbcur by blast
  next
    case False
    then show ?thesis using that I(4) by simp
  qed
  show "\<exists>e' l'. edges g (c, n) = Some e'
          \<and> (d(nb := Fin (l + edge_length e))) c = Fin l'
          \<and> (d(nb := Fin (l + edge_length e))) n = Fin (l' + edge_length e')"
    if "(p(nb \<mapsto> current)) n = Some c" for n c
  proof (cases "n = nb")
    case True
    then have "c = current" using that by simp
    then show ?thesis using True e fin nbcur by simp
  next
    case False
    then have pn: "p n = Some c" using that by simp
    from I(4) [OF pn] have "c \<in> set vis" by auto
    then have "c \<noteq> nb" using nbvis by auto
    with I(5) [OF pn] False show ?thesis by simp
  qed
  show "(p(nb \<mapsto> current)) sn = None" using I(6) nbsn by simp
  show "(d(nb := Fin (l + edge_length e))) sn = Fin 0" using I(7) nbsn by simp
  show "n = sn \<or> (p(nb \<mapsto> current)) n \<noteq> None"
    if "(d(nb := Fin (l + edge_length e))) n \<noteq> PInf" for n
    using that I(8) [of n] by (cases "n = nb") simp_all
  show "p(nb \<mapsto> current) = Map.empty" if "sn \<in> set unv"
    using that sn by simp
qed

lemma relax_neighbors_inv:
  assumes "search_inv g sn vis (d, p, unv)"
    and "current \<in> set vis" and "sn \<notin> set unv" and "d current = Fin l"
  shows "search_inv g sn vis
           (case relax_neighbors g current unv (d, p) nbs of (d', p') \<Rightarrow> (d', p', unv))"
  using assms
proof (induction nbs arbitrary: d p)
  case Nil
  then show ?case by simp
next
  case (Cons nb nbs)
  show ?case
  proof (cases "nb \<in> set unv \<and> edges g (current, nb) \<noteq> None
                  \<and> fless (fplus (d current) (Fin (edge_length (the (edges g (current, nb))))))
                        (d nb)")
    case True
    then obtain e where e: "edges g (current, nb) = Some e" by auto
    have nbcur: "nb \<noteq> current"
      using True Cons.prems(1,2) by (auto dest!: search_invD(1))
    let ?d = "d(nb := Fin (l + edge_length e))"
    let ?p = "p(nb \<mapsto> current)"
    have inv': "search_inv g sn vis (?d, ?p, unv)"
      using Cons.prems(1,2,3) _ e Cons.prems(4) by (rule relax_update_inv) (use True in simp)
    have dc: "?d current = Fin l" using nbcur Cons.prems(4) by simp
    have step: "relax_neighbors g current unv (d, p) (nb # nbs)
                  = relax_neighbors g current unv (?d, ?p) nbs"
      using True e Cons.prems(4) by simp
    show ?thesis
      unfolding step using inv' Cons.prems(2,3) dc by (rule Cons.IH)
  next
    case False
    then have "relax_neighbors g current unv (d, p) (nb # nbs)
                 = relax_neighbors g current unv (d, p) nbs"
      by (auto split: option.splits)
    then show ?thesis using Cons.IH [OF Cons.prems] by simp
  qed
qed

lemma min_by_mem: "min_by key xs = Some c \<Longrightarrow> c \<in> set xs"
  by (induction xs arbitrary: c) (auto split: option.splits if_splits)

lemma pop_inv:
  assumes inv: "search_inv g sn vis (d, p, unv)"
    and cur: "current \<in> set unv" and fin: "d current \<noteq> PInf"
  shows "search_inv g sn (vis @ [current]) (d, p, removeAll current unv)"
    and "sn \<notin> set (removeAll current unv)"
proof -
  note I = search_invD [OF inv]
  show sn: "sn \<notin> set (removeAll current unv)"
  proof
    assume "sn \<in> set (removeAll current unv)"
    then have "sn \<in> set unv" "sn \<noteq> current" by auto
    with I(9) have "p = Map.empty" by simp
    with I(8) [OF fin] \<open>sn \<noteq> current\<close> show False by simp
  qed
  show "search_inv g sn (vis @ [current]) (d, p, removeAll current unv)"
  proof (rule search_invI)
    show "set (vis @ [current]) \<inter> set (removeAll current unv) = {}" using I(1) by auto
    show "[] \<notin> set (vis @ [current])" using I(2,3) cur by auto
    show "[] \<notin> set (removeAll current unv)" using I(3) by auto
    show "\<exists>xs ys. vis @ [current] = xs @ c # ys \<and> n \<notin> set xs \<and> n \<noteq> c"
      if "p n = Some c" for n c
    proof -
      from I(4) [OF that] obtain xs ys where "vis = xs @ c # ys" "n \<notin> set xs" "n \<noteq> c"
        by blast
      then have "vis @ [current] = xs @ c # (ys @ [current])" by simp
      with \<open>n \<notin> set xs\<close> \<open>n \<noteq> c\<close> show ?thesis by blast
    qed
    show "\<exists>e l. edges g (c, n) = Some e \<and> d c = Fin l \<and> d n = Fin (l + edge_length e)"
      if "p n = Some c" for n c
      using I(5) [OF that] .
    show "p sn = None" "d sn = Fin 0" by (rule I)+
    show "n = sn \<or> p n \<noteq> None" if "d n \<noteq> PInf" for n using I(8) [OF that] .
    show "p = Map.empty" if "sn \<in> set (removeAll current unv)" using that sn by simp
  qed
qed

lemma dijkstra_loop_inv:
  assumes "search_inv g sn vis s"
  shows "\<exists>vis'. search_inv g sn vis' (dijkstra_loop g en s)"
  using assms
proof (induction g en s arbitrary: vis rule: dijkstra_loop.induct)
  case (1 g en d p unv)
  show ?case
  proof (cases "min_by d unv")
    case None
    then show ?thesis using "1.prems" by auto
  next
    case (Some current)
    note cur = min_by_mem [OF Some]
    show ?thesis
    proof (cases "d current = PInf")
      case True
      then show ?thesis using "1.prems" Some by auto
    next
      case False
      note pop = pop_inv [OF "1.prems" cur False]
      show ?thesis
      proof (cases "current = en")
        case True
        then show ?thesis using pop(1) Some False by auto
      next
        case ne: False
        obtain d' p' where rel:
          "relax_neighbors g current (removeAll current unv) (d, p) (adjacent g current) = (d', p')"
          by (cases "relax_neighbors g current (removeAll current unv) (d, p) (adjacent g current)")
        from False obtain l where l: "d current = Fin l" by (cases "d current") auto
        have "search_inv g sn (vis @ [current]) (d', p', removeAll current unv)"
          using relax_neighbors_inv [OF pop(1) _ pop(2) l, of "adjacent g current"] rel by simp
        from "1.IH" [OF Some False ne rel [symmetric] this]
        show ?thesis using Some False ne rel by simp
      qed
    qed
  qed
qed


lemma search_inv_init:
  assumes "[] \<notin> set unv"
  shows "search_inv g sn [] ((\<lambda>node. PInf)(sn := Fin 0), Map.empty, unv)"
  using assms by (intro search_invI) (simp_all split: if_splits)

lemma search_inv_search:
  assumes "[] \<notin> set (set_iter (node_keys g))"
  shows "\<exists>vis. search_inv g sn vis (search set_iter g sn en)"
  unfolding search_def using search_inv_init [OF assms] by (rule dijkstra_loop_inv)

lemma no_predecessor_iff:
  assumes "search_inv g sn vis (d, p, unv)"
  shows "p en = None \<longleftrightarrow> d en = PInf \<or> en = sn"
proof
  note I = search_invD [OF assms]
  show "d en = PInf \<or> en = sn" if "p en = None" using that I(8) [of en] by auto
  show "p en = None" if "d en = PInf \<or> en = sn"
  proof (cases "en = sn")
    case True
    then show ?thesis using I(6) by simp
  next
    case False
    with that have "d en = PInf" by simp
    then show ?thesis using I(5) [of en] by (cases "p en") auto
  qed
qed

subsection \<open>The node path\<close>

lemma walk_back_None: "walk_back p None path = Some path"
  by (subst walk_back.simps) simp

lemma walk_back_Some:
  "walk_back p (Some c) path = (if c = [] then Some path else walk_back p (p c) (c # path))"
  by (subst walk_back.simps) simp

lemma path_lengths_snoc:
  assumes "path \<noteq> []" and "path_lengths g path = Some ls"
    and "edges g (last path, n) = Some e"
  shows "path_lengths g (path @ [n]) = Some (ls @ [edge_length e])"
  using assms
  by (induction g path arbitrary: ls rule: path_lengths.induct) (auto split: option.splits)

lemma walk_back_chain:
  assumes inv: "search_inv g sn vis (d, p, unv)"
    and "n \<noteq> []" and "d n \<noteq> PInf"
  shows "\<exists>path ls. walk_back p (Some n) acc = Some (path @ acc) \<and> path \<noteq> []
           \<and> hd path = sn \<and> last path = n
           \<and> path_lengths g path = Some ls \<and> d n = Fin (sum_list ls)"
  using assms(2,3)
proof (induction "length (takeWhile (\<lambda>x. x \<noteq> n) vis)" arbitrary: n acc rule: less_induct)
  case less
  note I = search_invD [OF inv]
  show ?case
  proof (cases "p n")
    case None
    with I(8) [OF less.prems(2)] have n: "n = sn" by simp
    have "walk_back p (Some n) acc = Some ([n] @ acc)"
      using None less.prems(1) by (simp add: walk_back_Some walk_back_None)
    moreover have "path_lengths g [n] = Some []" by simp
    moreover have "d n = Fin (sum_list [])" using n I(7) by simp
    ultimately show ?thesis using n by (metis last.simps list.sel(1) not_Cons_self2)
  next
    case (Some c)
    from I(4) [OF Some] obtain xs ys where
      vis: "vis = xs @ c # ys" "n \<notin> set xs" "n \<noteq> c" by blast
    from I(5) [OF Some] obtain e l where
      e: "edges g (c, n) = Some e" "d c = Fin l" "d n = Fin (l + edge_length e)" by blast
    have c_ne: "c \<noteq> []" using vis(1) I(2) by auto
    have "length (takeWhile (\<lambda>x. x \<noteq> c) vis) \<le> length xs"
      unfolding vis(1) by (simp add: takeWhile_append length_takeWhile_le)
    moreover have "length xs < length (takeWhile (\<lambda>x. x \<noteq> n) vis)"
      unfolding vis(1) using vis(2,3) by (simp add: takeWhile_append)
    ultimately have m: "length (takeWhile (\<lambda>x. x \<noteq> c) vis) < length (takeWhile (\<lambda>x. x \<noteq> n) vis)"
      by simp
    have "d c \<noteq> PInf" using e(2) by simp
    from less.hyps [OF m c_ne this, of "n # acc"] obtain path ls where
      IH: "walk_back p (Some c) (n # acc) = Some (path @ n # acc)" "path \<noteq> []"
        "hd path = sn" "last path = c" "path_lengths g path = Some ls" "d c = Fin (sum_list ls)"
      by blast
    have w: "walk_back p (Some n) acc = Some ((path @ [n]) @ acc)"
      using Some less.prems(1) IH(1) by (simp add: walk_back_Some)
    have pl: "path_lengths g (path @ [n]) = Some (ls @ [edge_length e])"
      using IH(2,5) e(1) IH(4) by (intro path_lengths_snoc) simp_all
    have dn: "d n = Fin (sum_list (ls @ [edge_length e]))"
      using e(2,3) IH(6) by simp
    have "hd (path @ [n]) = sn" "last (path @ [n]) = n" "path @ [n] \<noteq> []"
      using IH(2,3) by simp_all
    with w pl dn show ?thesis by blast
  qed
qed

subsection \<open>The nearest node\<close>

lemma checked_distance_Inr:
  "checked_distance gc p q = Inr d \<Longrightarrow> calculate_distance gc p q = Inr d"
  by (simp add: checked_distance_def split: if_splits)

lemma nearest_scan_props:
  assumes "nearest_scan gc pt ks (b, m) = Inr (b', m')"
  shows "(\<forall>k\<in>set ks. 2 \<le> length k) \<and> (b' = b \<or> (\<exists>k\<in>set ks. b' = Some k))"
  using assms
proof (induction ks arbitrary: b m)
  case Nil
  then show ?case by simp
next
  case (Cons k ks)
  from Cons.prems obtain dist where dist: "checked_distance gc pt k = Inr dist"
    by (auto split: sum.splits)
  then have k: "2 \<le> length k"
    by (auto simp: calculate_distance_def dest!: checked_distance_Inr split: if_splits)
  show ?case
  proof (cases "fless (Fin dist) m")
    case True
    with Cons.prems dist have "nearest_scan gc pt ks (Some k, Fin dist) = Inr (b', m')" by simp
    from Cons.IH [OF this] k show ?thesis by auto
  next
    case False
    with Cons.prems dist have "nearest_scan gc pt ks (b, m) = Inr (b', m')" by simp
    from Cons.IH [OF this] k show ?thesis by auto
  qed
qed

lemma find_nearest_node_props:
  assumes "find_nearest_node gc g pt = Inr r"
  shows "(\<forall>k\<in>set (node_keys g). 2 \<le> length k)" and "r = Some n \<Longrightarrow> n \<in> set (node_keys g)"
proof -
  from assms obtain b m where
    sc: "nearest_scan gc pt (node_keys g) (None, PInf) = Inr (b, m)"
    and r: "r = None \<or> r = b"
    by (auto simp: find_nearest_node_def split: sum.splits if_splits)
  from nearest_scan_props [OF sc] show "\<forall>k\<in>set (node_keys g). 2 \<le> length k" by simp
  show "n \<in> set (node_keys g)" if "r = Some n"
    using nearest_scan_props [OF sc] r that by auto
qed

lemma nodes_not_empty_tuple:
  assumes "find_nearest_node gc g pt = Inr r"
    and "set (set_iter (node_keys g)) \<subseteq> set (node_keys g)"
  shows "[] \<notin> set (set_iter (node_keys g))"
proof
  assume "[] \<in> set (set_iter (node_keys g))"
  with assms(2) have "[] \<in> set (node_keys g)" by auto
  with find_nearest_node_props(1) [OF assms(1)] show False by auto
qed

text \<open>
  Claim C1. When both endpoints of a query resolve to nodes and the search records a
  predecessor for the end node, the path loop returns a node path from the start node
  to the end node, every two consecutive nodes of which are joined by an edge of the
  graph, and the distance the search holds for the end node is the sum of the lengths
  of these edges. This needs no condition on the signs of the lengths.
\<close>

theorem dijkstra_cost_is_sum_of_path_edges:
  assumes "find_nearest_node gc g start = Inr (Some start_node)"
    and "find_nearest_node gc g end = Inr (Some end_node)"
    and "set (set_iter (node_keys g)) \<subseteq> set (node_keys g)"
    and "search set_iter g start_node end_node = (distances, previous_nodes, unvisited)"
    and "previous_nodes end_node \<noteq> None"
  shows "\<exists>path ls. walk_back previous_nodes (Some end_node) [] = Some path
           \<and> hd path = start_node \<and> last path = end_node
           \<and> path_lengths g path = Some ls
           \<and> distances end_node = Fin (sum_list ls)"
proof -
  have "[] \<notin> set (set_iter (node_keys g))"
    using assms(1,3) by (rule nodes_not_empty_tuple)
  then have "\<exists>vis. search_inv g start_node vis (search set_iter g start_node end_node)"
    by (rule search_inv_search)
  then obtain vis where
    inv: "search_inv g start_node vis (distances, previous_nodes, unvisited)"
    unfolding assms(4) by blast
  have "end_node \<in> set (node_keys g)"
    using find_nearest_node_props(2) [OF assms(2)] by simp
  with find_nearest_node_props(1) [OF assms(2)] have ne: "end_node \<noteq> []" by auto
  have fin: "distances end_node \<noteq> PInf"
    using no_predecessor_iff [OF inv, of end_node] assms(5) by simp
  from walk_back_chain [OF inv ne fin, of "[]"] show ?thesis by auto
qed

lemmas eval_dijkstra =
  dijkstra_def find_nearest_node_def node_keys_def checked_distance_def latitude_ok_def
  calculate_distance_def flat_gc_def
  search_def adjacent_def build_route_def walk_back_None walk_back_Some

theorem dijkstra_cost_is_sum_of_path_edges_witness:
  "find_nearest_node flat_gc meridian_graph [0, 1 / 100000] = Inr (Some [0, 0])
   \<and> find_nearest_node flat_gc meridian_graph [0, 1 / 1000] = Inr (Some [0, 1 / 1000])
   \<and> fst (snd (search (\<lambda>ks. ks) meridian_graph [0, 0] [0, 1 / 1000])) [0, 1 / 1000]
       = Some [0, 0]
   \<and> walk_back (fst (snd (search (\<lambda>ks. ks) meridian_graph [0, 0] [0, 1 / 1000])))
        (Some [0, 1 / 1000]) [] = Some [[0, 0], [0, 1 / 1000]]
   \<and> path_lengths meridian_graph [[0, 0], [0, 1 / 1000]] = Some [111195 / 1000]
   \<and> fst (search (\<lambda>ks. ks) meridian_graph [0, 0] [0, 1 / 1000]) [0, 1 / 1000]
       = Fin (sum_list [111195 / 1000])"
proof -
  let ?s = "search (\<lambda>ks. ks) meridian_graph [0, 0] [0, 1 / 1000]"
  have a: "find_nearest_node flat_gc meridian_graph [0, 1 / 100000] = Inr (Some [0, 0])"
    by (simp add: eval_dijkstra meridian_graph_def)
  have b: "find_nearest_node flat_gc meridian_graph [0, 1 / 1000] = Inr (Some [0, 1 / 1000])"
    by (simp add: eval_dijkstra meridian_graph_def)
  have c: "set ((\<lambda>ks. ks) (node_keys meridian_graph)) \<subseteq> set (node_keys meridian_graph)"
    by simp
  have d: "?s = (fst ?s, fst (snd ?s), snd (snd ?s))" by simp
  have e: "fst (snd ?s) [0, 1 / 1000] = Some [0, 0]"
    by (simp add: eval_dijkstra meridian_graph_def)
  then have e': "fst (snd ?s) [0, 1 / 1000] \<noteq> None" by simp
  from dijkstra_cost_is_sum_of_path_edges [OF a b c d e'] obtain path ls where
    r: "walk_back (fst (snd ?s)) (Some [0, 1 / 1000]) [] = Some path"
      "path_lengths meridian_graph path = Some ls"
      "fst ?s [0, 1 / 1000] = Fin (sum_list ls)"
    by blast
  have w: "walk_back (fst (snd ?s)) (Some [0, 1 / 1000]) [] = Some [[0, 0], [0, 1 / 1000]]"
    by (simp add: eval_dijkstra meridian_graph_def)
  with r(1) have path: "path = [[0, 0], [0, 1 / 1000]]" by simp
  have pl: "path_lengths meridian_graph [[0, 0], [0, 1 / 1000]] = Some [111195 / 1000]"
    by (simp add: meridian_graph_def)
  with r(2) path have "ls = [111195 / 1000]" by simp
  with r(3) a b e w pl show ?thesis by simp
qed

subsection \<open>The route\<close>

lemma path_segments_lengths:
  assumes "path_lengths g path = Some ls"
    and "path_segments gc g path (lc, rs) = Inr (lc', rs')"
  shows "map seg_length rs' = map seg_length rs @ ls"
  using assms
proof (induction path arbitrary: ls lc rs)
  case Nil
  then show ?case by simp
next
  case (Cons a rest)
  show ?case
  proof (cases rest)
    case Nil
    with Cons.prems show ?thesis by simp
  next
    case (Cons b rest')
    from Cons.prems(1) Cons obtain e ls' where
      e: "edges g (a, b) = Some e" and ls': "path_lengths g rest = Some ls'"
      and ls: "ls = edge_length e # ls'"
      by (auto split: option.splits)
    let ?seg = "\<lparr>seg_road_id = edge_id e, seg_length = edge_length e,
                 seg_type = None, seg_from = None, seg_to = None\<rparr>"
    from Cons.prems(2) Cons e have
      "path_segments gc g rest (lc @ [geometry e ! 1], rs @ [?seg]) = Inr (lc', rs')"
      by (auto split: if_splits)
    from Cons.IH [OF ls' this] ls show ?thesis by simp
  qed
qed

lemma dijkstra_route_parts:
  assumes "dijkstra gc set_iter g start end = Some (Inr (Some line_coords, td, segs))"
  obtains sn en d p unv where
    "find_nearest_node gc g start = Inr (Some sn)"
    "find_nearest_node gc g end = Inr (Some en)"
    "search set_iter g sn en = (d, p, unv)"
    "p en \<noteq> None"
    "build_route gc g start end sn en d p = Some (Inr (Some line_coords, td, segs))"
proof -
  from assms obtain a b where
    a: "find_nearest_node gc g start = Inr a" and b: "find_nearest_node gc g end = Inr b"
    by (auto simp: dijkstra_def split: sum.splits)
  from assms a b obtain sn en where sn: "a = Some sn" and en: "b = Some en"
    by (cases a; cases b) (auto simp: dijkstra_def)
  obtain d p unv where s: "search set_iter g sn en = (d, p, unv)"
    by (cases "search set_iter g sn en")
  from assms a b sn en s have "p en \<noteq> None"
    and "build_route gc g start end sn en d p = Some (Inr (Some line_coords, td, segs))"
    by (auto simp: dijkstra_def split: if_splits)
  with a b sn en s that show ?thesis by blast
qed

text \<open>
  Claim C2, over the reals. For a distance function that is never negative and is 0
  from a point to itself, whenever \<open>dijkstra\<close> returns a route, the total it returns is
  the distance from the start point to its node, plus the distance the search holds
  for the end node, plus the distance from the end node to the end point, and the
  lengths of the returned segments add up to the same value.
\<close>

theorem route_total_is_sum_of_segments:
  assumes "dijkstra gc set_iter g start end
             = Some (Inr (Some line_coords, total_distance, road_segments))"
    and "set (set_iter (node_keys g)) \<subseteq> set (node_keys g)"
    and "\<forall>p q. 0 \<le> gc p q" and "\<forall>p. gc p p = 0"
  shows "\<exists>start_node end_node d0 d1 c.
           find_nearest_node gc g start = Inr (Some start_node)
           \<and> find_nearest_node gc g end = Inr (Some end_node)
           \<and> calculate_distance gc start start_node = Inr d0
           \<and> calculate_distance gc end_node end = Inr d1
           \<and> fst (search set_iter g start_node end_node) end_node = Fin c
           \<and> total_distance = Fin (d0 + c + d1)
           \<and> sum_list (map seg_length road_segments) = d0 + c + d1"
proof -
  from assms(1) obtain sn en d p unv where
    fs: "find_nearest_node gc g start = Inr (Some sn)"
    and fe: "find_nearest_node gc g end = Inr (Some en)"
    and s: "search set_iter g sn en = (d, p, unv)"
    and pe: "p en \<noteq> None"
    and br: "build_route gc g start end sn en d p
               = Some (Inr (Some line_coords, total_distance, road_segments))"
    by (rule dijkstra_route_parts)
  have "[] \<notin> set (set_iter (node_keys g))"
    using fs assms(2) by (rule nodes_not_empty_tuple)
  then have "\<exists>vis. search_inv g sn vis (search set_iter g sn en)"
    by (rule search_inv_search)
  then obtain vis where inv: "search_inv g sn vis (d, p, unv)"
    unfolding s by blast
  have "en \<in> set (node_keys g)" using find_nearest_node_props(2) [OF fe] by simp
  with find_nearest_node_props(1) [OF fe] have ne: "en \<noteq> []" by auto
  have fin: "d en \<noteq> PInf" using no_predecessor_iff [OF inv, of en] pe by simp
  from walk_back_chain [OF inv ne fin, of "[]"] obtain path ls where
    w: "walk_back p (Some en) [] = Some path"
    and pl: "path_lengths g path = Some ls" and den: "d en = Fin (sum_list ls)"
    by auto
  from br w obtain d0 where c0: "checked_distance gc start sn = Inr d0"
    by (auto simp: build_route_def split: sum.splits)
  then have d0: "calculate_distance gc start sn = Inr d0" by (rule checked_distance_Inr)
  let ?lc0 = "if start \<noteq> sn then [start, sn] else [start]"
  let ?rs0 = "if start \<noteq> sn \<and> d0 > 0
              then [\<lparr>seg_road_id = ''user_to_road'', seg_length = d0,
                      seg_type = Some ''user_segment'', seg_from = Some start,
                      seg_to = Some sn\<rparr>]
              else []"
  from br w c0 obtain lc rs where ps: "path_segments gc g path (?lc0, ?rs0) = Inr (lc, rs)"
    by (auto simp: build_route_def split: sum.splits)
  from br w c0 ps obtain d1 where c1: "checked_distance gc en end = Inr d1"
    by (auto simp: build_route_def split: sum.splits)
  then have d1: "calculate_distance gc en end = Inr d1" by (rule checked_distance_Inr)
  from br w c0 ps c1 have tot: "total_distance = fplus (fplus (Fin d0) (d en)) (Fin d1)"
    and segs: "road_segments =
        (if end \<noteq> en \<and> d1 > 0
         then rs @ [\<lparr>seg_road_id = ''road_to_user'', seg_length = d1,
                      seg_type = Some ''user_segment'', seg_from = Some en,
                      seg_to = Some end\<rparr>]
         else rs)"
    by (auto simp: build_route_def)
  have d0_val: "d0 = gc (start ! 1, start ! 0) (sn ! 1, sn ! 0)"
    using d0 by (auto simp: calculate_distance_def split: if_splits)
  have d1_val: "d1 = gc (en ! 1, en ! 0) (end ! 1, end ! 0)"
    using d1 by (auto simp: calculate_distance_def split: if_splits)
  have s0: "sum_list (map seg_length ?rs0) = d0"
  proof (cases "start = sn")
    case True
    then show ?thesis using d0_val assms(4) by simp
  next
    case False
    have "0 \<le> d0" using d0_val assms(3) by simp
    then show ?thesis using False by auto
  qed
  have s1: "sum_list (map seg_length road_segments) = sum_list (map seg_length rs) + d1"
  proof (cases "end = en")
    case True
    then show ?thesis using d1_val assms(4) segs by simp
  next
    case False
    have "0 \<le> d1" using d1_val assms(3) by simp
    then show ?thesis using False segs by auto
  qed
  have "map seg_length rs = map seg_length ?rs0 @ ls"
    using pl ps by (rule path_segments_lengths)
  then have "sum_list (map seg_length rs) = d0 + sum_list ls"
    using s0 by (metis sum_list_append)
  with s1 have sum: "sum_list (map seg_length road_segments) = d0 + sum_list ls + d1" by simp
  have "fst (search set_iter g sn en) en = Fin (sum_list ls)" using s den by simp
  moreover have "total_distance = Fin (d0 + sum_list ls + d1)" using tot den by simp
  ultimately show ?thesis using fs fe d0 d1 sum by blast
qed

theorem route_total_is_sum_of_segments_witness:
  "dijkstra flat_gc (\<lambda>ks. ks) meridian_graph [0, 1 / 100000] [0, 1 / 1000] =
     Some (Inr (Some [[0, 1 / 100000], [0, 0], [0, 1 / 1000]],
       Fin (111195 / 100000 + 111195 / 1000 + 0),
       [\<lparr>seg_road_id = ''user_to_road'', seg_length = 111195 / 100000,
         seg_type = Some ''user_segment'', seg_from = Some [0, 1 / 100000],
         seg_to = Some [0, 0]\<rparr>,
        \<lparr>seg_road_id = ''r1'', seg_length = 111195 / 1000, seg_type = None, seg_from = None,
         seg_to = None\<rparr>]))
   \<and> sum_list (map seg_length
       [\<lparr>seg_road_id = ''user_to_road'', seg_length = 111195 / 100000,
         seg_type = Some ''user_segment'', seg_from = Some [0, 1 / 100000],
         seg_to = Some [0, 0]\<rparr>,
        \<lparr>seg_road_id = ''r1'', seg_length = 111195 / 1000, seg_type = None, seg_from = None,
         seg_to = None\<rparr>]) = 111195 / 100000 + 111195 / 1000 + 0"
proof -
  have r: "dijkstra flat_gc (\<lambda>ks. ks) meridian_graph [0, 1 / 100000] [0, 1 / 1000] =
     Some (Inr (Some [[0, 1 / 100000], [0, 0], [0, 1 / 1000]],
       Fin (111195 / 100000 + 111195 / 1000 + 0),
       [\<lparr>seg_road_id = ''user_to_road'', seg_length = 111195 / 100000,
         seg_type = Some ''user_segment'', seg_from = Some [0, 1 / 100000],
         seg_to = Some [0, 0]\<rparr>,
        \<lparr>seg_road_id = ''r1'', seg_length = 111195 / 1000, seg_type = None, seg_from = None,
         seg_to = None\<rparr>]))"
    by (simp add: eval_dijkstra meridian_graph_def)
  have k: "set ((\<lambda>ks. ks) (node_keys meridian_graph)) \<subseteq> set (node_keys meridian_graph)"
    by simp
  have nn: "\<forall>p q. 0 \<le> flat_gc p q" by (simp add: flat_gc_def)
  have z: "\<forall>p. flat_gc p p = 0" by (simp add: flat_gc_def)
  from route_total_is_sum_of_segments [OF r k nn z] obtain d0 d1 c where
    "Fin (111195 / 100000 + 111195 / 1000 + 0) = Fin (d0 + c + d1)"
    "sum_list (map seg_length
       [\<lparr>seg_road_id = ''user_to_road'', seg_length = 111195 / 100000,
         seg_type = Some ''user_segment'', seg_from = Some [0, 1 / 100000],
         seg_to = Some [0, 0]\<rparr>,
        \<lparr>seg_road_id = ''r1'', seg_length = 111195 / 1000, seg_type = None, seg_from = None,
         seg_to = None\<rparr>]) = d0 + c + d1"
    by blast
  then have "sum_list (map seg_length
       [\<lparr>seg_road_id = ''user_to_road'', seg_length = 111195 / 100000,
         seg_type = Some ''user_segment'', seg_from = Some [0, 1 / 100000],
         seg_to = Some [0, 0]\<rparr>,
        \<lparr>seg_road_id = ''r1'', seg_length = 111195 / 1000, seg_type = None, seg_from = None,
         seg_to = None\<rparr>]) = 111195 / 100000 + 111195 / 1000 + 0"
    by simp
  with r show ?thesis by (rule conjI)
qed

subsection \<open>No path\<close>

lemma search_same_node:
  assumes "[] \<notin> set (set_iter (node_keys g))"
    and "search set_iter g n n = (d, p, unv)"
  shows "d n = Fin 0 \<and> p n = None"
proof -
  from assms(1) have "\<exists>vis. search_inv g n vis (search set_iter g n n)"
    by (rule search_inv_search)
  then obtain vis where "search_inv g n vis (d, p, unv)" unfolding assms(2) by blast
  from search_invD(6,7) [OF this] show ?thesis by simp
qed

text \<open>
  Claim C5, at a query whose two points resolve to one node. The search leaves the
  distance of that node at 0, and \<open>dijkstra\<close> returns the triple of a missing path.
\<close>

theorem same_node_query_finds_no_path:
  assumes "find_nearest_node gc g start = Inr (Some n)"
    and "find_nearest_node gc g end = Inr (Some n)"
    and "set (set_iter (node_keys g)) \<subseteq> set (node_keys g)"
  shows "fst (search set_iter g n n) n = Fin 0
         \<and> dijkstra gc set_iter g start end = Some (Inr (None, Fin 0, []))"
proof -
  have ne: "[] \<notin> set (set_iter (node_keys g))"
    using assms(1,3) by (rule nodes_not_empty_tuple)
  obtain d p unv where s: "search set_iter g n n = (d, p, unv)"
    by (cases "search set_iter g n n")
  from search_same_node [OF ne s] have "d n = Fin 0" "p n = None" by simp_all
  then show ?thesis using assms(1,2) s by (simp add: dijkstra_def)
qed

lemmas eval_plan_route = plan_route_def eval_dijkstra

theorem same_node_query_finds_no_path_witness:
  "find_nearest_node flat_gc meridian_graph [0, 1 / 100000] = Inr (Some [0, 0])
   \<and> find_nearest_node flat_gc meridian_graph [0, 2 / 100000] = Inr (Some [0, 0])
   \<and> fst (search (\<lambda>ks. ks) meridian_graph [0, 0] [0, 0]) [0, 0] = Fin 0
   \<and> dijkstra flat_gc (\<lambda>ks. ks) meridian_graph [0, 1 / 100000] [0, 2 / 100000]
       = Some (Inr (None, Fin 0, []))
   \<and> plan_route flat_gc decimal_float (\<lambda>ks. ks) meridian_graph same_node_query
       = Some (Inr (Failure 404 ''No valid route found between the points''
                      (Some ''Try closer points or check road network data'')))"
proof -
  have a: "find_nearest_node flat_gc meridian_graph [0, 1 / 100000] = Inr (Some [0, 0])"
    by (simp add: eval_dijkstra meridian_graph_def)
  have b: "find_nearest_node flat_gc meridian_graph [0, 2 / 100000] = Inr (Some [0, 0])"
    by (simp add: eval_dijkstra meridian_graph_def)
  have r: "fst (search (\<lambda>ks. ks) meridian_graph [0, 0] [0, 0]) [0, 0] = Fin 0
       \<and> dijkstra flat_gc (\<lambda>ks. ks) meridian_graph [0, 1 / 100000] [0, 2 / 100000]
           = Some (Inr (None, Fin 0, []))"
    by (rule same_node_query_finds_no_path [where set_iter = "\<lambda>ks. ks", OF a b]) simp
  have "plan_route flat_gc decimal_float (\<lambda>ks. ks) meridian_graph same_node_query
       = Some (Inr (Failure 404 ''No valid route found between the points''
                      (Some ''Try closer points or check road network data'')))"
    using r by (simp add: plan_route_def same_node_query_def)
  with a b r show ?thesis by simp
qed

subsection \<open>The failures of \<open>plan_route\<close>\<close>




lemma fless_trans: "fless a b \<Longrightarrow> fless b c \<Longrightarrow> fless a c"
  by (cases a; cases b; cases c) simp_all












text \<open>
  Requests that get none of the failure answers: the distance is computed outside the
  \<open>try\<close>, and only ValueError is caught inside it, so an out-of-range latitude (when
  the graph has a node), an integer beyond the floats and a value that is not a number
  leave the handler as exceptions.
\<close>

lemma plan_route_latitude_raises:
  assumes "start_lon q = Some a \<and> start_lat q = Some b \<and> end_lon q = Some c \<and> end_lat q = Some d"
    and "float_all pyfloat [a, b, c, d] = Inr [x1, x2, x3, x4]"
    and "node_keys g = k # ks" and "2 \<le> length k" and "\<not> latitude_ok x2"
  shows "plan_route gc pyfloat set_iter g q = Some (Inl ValueError)"
proof -
  have "checked_distance gc [x1, x2] k = Inl ValueError"
    using assms(4,5) by (simp add: checked_distance_def)
  then have "find_nearest_node gc g [x1, x2] = Inl ValueError"
    using assms(3) by (simp add: find_nearest_node_def)
  then have "dijkstra gc set_iter g [x1, x2] [x3, x4] = Some (Inl ValueError)"
    by (simp add: dijkstra_def)
  then show ?thesis using assms(1,2) by (simp add: plan_route_def)
qed

lemma plan_route_uncaught_examples:
  "plan_route flat_gc decimal_float (\<lambda>ks. ks) meridian_graph
     \<lparr>start_lon = Some (JNum 0), start_lat = Some (JNum 100),
      end_lon = Some (JNum 0), end_lat = Some (JNum 0)\<rparr> = Some (Inl ValueError)"
  "plan_route flat_gc decimal_float (\<lambda>ks. ks) meridian_graph
     \<lparr>start_lon = Some (JInt (2 ^ 1024)), start_lat = Some (JNum 0),
      end_lon = Some (JNum 0), end_lat = Some (JNum 0)\<rparr> = Some (Inl OverflowError)"
  "plan_route flat_gc decimal_float (\<lambda>ks. ks) meridian_graph
     \<lparr>start_lon = Some JOther, start_lat = Some (JNum 0),
      end_lon = Some (JNum 0), end_lat = Some (JNum 0)\<rparr> = Some (Inl TypeError)"
  by (simp_all add: eval_plan_route meridian_graph_def)




end
